theory Spec2Isabelle
  imports Complex_Main
begin

section \<open>Tensors and the tensor store\<close>

text \<open>
  The optimizer of \<^verbatim>\<open>src/devinterp/optim/sgld.py\<close> works on PyTorch tensors. A tensor is
  modelled by its shape, device, element type and its elements in row-major order. The
  elements are real numbers: the arithmetic of the update rule is modelled exactly, the
  rounding of floating-point numbers is not.
\<close>

datatype dtype = Float16 | BFloat16 | Float32 | Float64

datatype device = Cpu | Cuda nat

record tensor =
  shape :: "nat list"
  device :: device
  dtype :: dtype
  elems :: "real list"

definition numel :: "nat list \<Rightarrow> nat" where
  "numel sz = prod_list sz"

text \<open>\<^verbatim>\<open>t * c\<close> with a Python scalar: a new tensor like \<open>t\<close>.\<close>

definition mul_scalar :: "tensor \<Rightarrow> real \<Rightarrow> tensor" where
  "mul_scalar t c = t\<lparr>elems := map (\<lambda>x. x * c) (elems t)\<rparr>"

text \<open>\<^verbatim>\<open>t.add_(other, alpha=alpha)\<close>: \<open>t\<close> becomes \<open>t + alpha * other\<close>, elementwise.\<close>

definition add_inplace :: "tensor \<Rightarrow> tensor \<Rightarrow> real \<Rightarrow> tensor" where
  "add_inplace t other alpha = t\<lparr>elems := map2 (\<lambda>x y. x + alpha * y) (elems t) (elems other)\<rparr>"

text \<open>\<^verbatim>\<open>t - other\<close> on two tensors, \<^verbatim>\<open>t - c\<close> and \<^verbatim>\<open>t + c\<close> with a scalar.\<close>

definition sub :: "tensor \<Rightarrow> tensor \<Rightarrow> tensor" where
  "sub t other = t\<lparr>elems := map2 (\<lambda>x y. x - y) (elems t) (elems other)\<rparr>"

definition sub_scalar :: "tensor \<Rightarrow> real \<Rightarrow> tensor" where
  "sub_scalar t c = t\<lparr>elems := map (\<lambda>x. x - c) (elems t)\<rparr>"

definition add_scalar :: "tensor \<Rightarrow> real \<Rightarrow> tensor" where
  "add_scalar t c = t\<lparr>elems := map (\<lambda>x. x + c) (elems t)\<rparr>"

text \<open>
  \<^verbatim>\<open>torch.clamp_(t, min=lo, max=hi)\<close> with tensor bounds computes
  \<open>min (max x lo) hi\<close> for each element; where a lower bound exceeds the upper bound the
  result is the upper bound.
\<close>

definition clamp_inplace :: "tensor \<Rightarrow> tensor \<Rightarrow> tensor \<Rightarrow> tensor" where
  "clamp_inplace t lo hi =
     t\<lparr>elems := map2 (\<lambda>x (l, h). min (max x l) h) (elems t) (zip (elems lo) (elems hi))\<rparr>"

text \<open>
  Tensors are objects: a parameter is identified by the address of its tensor, in-place
  operations overwrite the cell at that address, and \<^verbatim>\<open>clone()\<close> allocates a new cell.
  The world outside the optimizer also holds the gradient \<^verbatim>\<open>p.grad\<close> of each parameter
  (\<open>None\<close> when it has none), the default element type of the process, and the random
  generator, a stream of standard normal variates with a read position.
\<close>

type_synonym addr = nat

record world =
  store :: "addr \<Rightarrow> tensor"
  next_addr :: addr
  grad :: "addr \<rightharpoonup> tensor"
  default_dtype :: dtype
  gen :: "nat \<Rightarrow> real"
  cursor :: nat

datatype error =
    KeyError                 \<comment> \<open>\<^verbatim>\<open>state[p]["initial_param"]\<close> on a parameter without an anchor\<close>
  | NormalStdNegative        \<comment> \<open>\<^verbatim>\<open>torch.normal\<close> called with \<open>std < 0\<close>\<close>
  | ComplexAlpha             \<comment> \<open>\<^verbatim>\<open>lr ** 0.5\<close> of a negative \<open>lr\<close> is complex; \<^verbatim>\<open>add_\<close> rejects it\<close>
  | NoneHasNoAppend          \<comment> \<open>\<^verbatim>\<open>self.noise.append\<close> while \<^verbatim>\<open>self.noise\<close> is \<open>None\<close>\<close>
  | EmptyParameterList       \<comment> \<open>the base class refuses an empty \<^verbatim>\<open>params\<close>\<close>
  | ParamInSeveralGroups     \<comment> \<open>the base class refuses a parameter in two groups\<close>

text \<open>
  \<^verbatim>\<open>torch.normal(mean, std, size, device=dev)\<close> with Python floats \<open>mean\<close> and \<open>std\<close>:
  it fails for a negative \<open>std\<close>; otherwise it reads \<open>numel size\<close> standard normal variates
  and returns \<open>mean + std * z\<close> for each. No \<^verbatim>\<open>dtype\<close> is passed, so the result has the
  default element type of the process.
\<close>

definition gaussian :: "real \<Rightarrow> real \<Rightarrow> nat list \<Rightarrow> device \<Rightarrow> world \<Rightarrow> tensor" where
  "gaussian mean std sz dev w =
     \<lparr>shape = sz, device = dev, dtype = default_dtype w,
      elems = map (\<lambda>k. mean + std * gen w (cursor w + k)) [0..<numel sz]\<rparr>"

definition torch_normal ::
  "real \<Rightarrow> real \<Rightarrow> nat list \<Rightarrow> device \<Rightarrow> world \<Rightarrow> error + tensor \<times> world" where
  "torch_normal mean std sz dev w =
     (if std < 0 then Inl NormalStdNegative
      else Inr (gaussian mean std sz dev w, w\<lparr>cursor := cursor w + numel sz\<rparr>))"

section \<open>The optimizer\<close>

text \<open>
  A parameter group is a dictionary with the six options of the constructor and the list
  of its parameters. \<^verbatim>\<open>bounding_box_size\<close> is \<open>None\<close> (Python's \<^verbatim>\<open>None\<close>, the
  default of the constructor) or a number.
\<close>

record config =
  lr :: real
  noise_level :: real
  weight_decay :: real
  localization :: real
  temperature :: real
  bounding_box_size :: "real option"

record group = config +
  params :: "addr list"

text \<open>
  The optimizer object: its groups, \<^verbatim>\<open>self.state\<close> (a \<^verbatim>\<open>defaultdict(dict)\<close> from
  parameters to dictionaries, whose only key is \<^verbatim>\<open>"initial_param"\<close>),
  \<^verbatim>\<open>self.save_noise\<close> and \<^verbatim>\<open>self.noise\<close>.
\<close>

record sgld =
  param_groups :: "group list"
  state :: "addr \<rightharpoonup> (string \<rightharpoonup> addr)"
  save_noise :: bool
  noise :: "tensor list option"

text \<open>The anchor of a parameter, when one is stored.\<close>

definition initial_param :: "sgld \<Rightarrow> addr \<Rightarrow> addr option" where
  "initial_param opt p = (case state opt p of None \<Rightarrow> None | Some d \<Rightarrow> d ''initial_param'')"

text \<open>\<^verbatim>\<open>self.state[p]\<close> on the \<^verbatim>\<open>defaultdict\<close>: a missing key gets an empty dictionary.\<close>

definition touch_state :: "addr \<Rightarrow> sgld \<Rightarrow> sgld" where
  "touch_state p opt =
     (case state opt p of
        None \<Rightarrow> opt\<lparr>state := (state opt)(p \<mapsto> Map.empty)\<rparr>
      | Some d \<Rightarrow> opt)"

text \<open>Python's \<^verbatim>\<open>x != 0\<close> on \<^verbatim>\<open>bounding_box_size\<close>: \<^verbatim>\<open>None != 0\<close> is true.\<close>

definition ne_zero :: "real option \<Rightarrow> bool" where
  "ne_zero b = (case b of None \<Rightarrow> True | Some x \<Rightarrow> x \<noteq> 0)"

subsection \<open>Construction\<close>

text \<open>
  The caller passes either an iterable of parameters or a list of dictionaries, each with
  its \<^verbatim>\<open>params\<close> and any options it overrides.
\<close>

record group_spec =
  sp_params :: "addr list"
  sp_lr :: "real option"
  sp_noise_level :: "real option"
  sp_weight_decay :: "real option"
  sp_localization :: "real option"
  sp_temperature :: "real option"
  sp_bounding_box_size :: "real option option"

datatype params_arg = Tensors "addr list" | Dicts "group_spec list"

definition or_default :: "'a option \<Rightarrow> 'a \<Rightarrow> 'a" where
  "or_default v d = (case v of None \<Rightarrow> d | Some x \<Rightarrow> x)"

text \<open>
  The base class \<^verbatim>\<open>torch.optim.Optimizer\<close> is not part of the repository. Its
  constructor refuses an empty \<^verbatim>\<open>params\<close>, wraps a plain list of parameters into one
  group, fills each group with the defaults it does not override, and refuses a parameter
  that already belongs to an earlier group.
\<close>

definition fill_defaults :: "config \<Rightarrow> group_spec \<Rightarrow> group" where
  "fill_defaults d s =
     \<lparr>lr = or_default (sp_lr s) (lr d),
      noise_level = or_default (sp_noise_level s) (noise_level d),
      weight_decay = or_default (sp_weight_decay s) (weight_decay d),
      localization = or_default (sp_localization s) (localization d),
      temperature = or_default (sp_temperature s) (temperature d),
      bounding_box_size = or_default (sp_bounding_box_size s) (bounding_box_size d),
      params = sp_params s\<rparr>"

fun add_param_groups :: "config \<Rightarrow> group_spec list \<Rightarrow> group list \<Rightarrow> error + group list" where
  "add_param_groups d [] gs = Inr gs"
| "add_param_groups d (s # ss) gs =
     (if set (sp_params s) \<inter> set (concat (map params gs)) \<noteq> {}
      then Inl ParamInSeveralGroups
      else add_param_groups d ss (gs @ [fill_defaults d s]))"

definition plain_group :: "addr list \<Rightarrow> group_spec" where
  "plain_group ps =
     \<lparr>sp_params = ps, sp_lr = None, sp_noise_level = None, sp_weight_decay = None,
      sp_localization = None, sp_temperature = None, sp_bounding_box_size = None\<rparr>"

definition Optimizer_init :: "params_arg \<Rightarrow> config \<Rightarrow> error + group list" where
  "Optimizer_init ps d =
     (case ps of
        Tensors [] \<Rightarrow> Inl EmptyParameterList
      | Tensors xs \<Rightarrow> add_param_groups d [plain_group xs] []
      | Dicts [] \<Rightarrow> Inl EmptyParameterList
      | Dicts ss \<Rightarrow> add_param_groups d ss [])"

text \<open>
  Lines 88 to 92: \<^verbatim>\<open>param_state["initial_param"] = p.data.clone().detach()\<close> for every
  parameter of every group with \<^verbatim>\<open>group["localization"] != 0 or
  group["bounding_box_size"] != 0\<close>.
\<close>

definition capture :: "addr \<Rightarrow> sgld \<times> world \<Rightarrow> sgld \<times> world" where
  "capture p = (\<lambda>(opt, w).
     let a = next_addr w;
         w' = w\<lparr>store := (store w)(a := store w p), next_addr := Suc a\<rparr>;
         d = (case state opt p of None \<Rightarrow> Map.empty | Some d \<Rightarrow> d)
     in (opt\<lparr>state := (state opt)(p \<mapsto> d(''initial_param'' \<mapsto> a))\<rparr>, w'))"

fun capture_params :: "addr list \<Rightarrow> sgld \<times> world \<Rightarrow> sgld \<times> world" where
  "capture_params [] s = s"
| "capture_params (p # ps) s = capture_params ps (capture p s)"

fun capture_groups :: "group list \<Rightarrow> sgld \<times> world \<Rightarrow> sgld \<times> world" where
  "capture_groups [] s = s"
| "capture_groups (g # gs) s =
     (if localization g \<noteq> 0 \<or> ne_zero (bounding_box_size g)
      then capture_groups gs (capture_params (params g) s)
      else capture_groups gs s)"

datatype warning = NoiseLevelWarning | TemperatureWarning

text \<open>The default arguments of \<^verbatim>\<open>SGLD.__init__\<close>.\<close>

definition default_args :: config where
  "default_args =
     \<lparr>lr = 0.01, noise_level = 1, weight_decay = 0, localization = 0, temperature = 1,
      bounding_box_size = None\<rparr>"

text \<open>
  \<^verbatim>\<open>SGLD.__init__\<close>: the warnings of lines 67 to 74 come first and are returned beside
  the result, which is the error of the base class or the new optimizer with the world
  after the anchors are cloned.
\<close>

definition SGLD_init ::
  "params_arg \<Rightarrow> config \<Rightarrow> bool \<Rightarrow> world \<Rightarrow> warning list \<times> (error + sgld \<times> world)" where
  "SGLD_init ps args sv w =
     ((if noise_level args \<noteq> 1 then [NoiseLevelWarning] else []) @
      (if temperature args = 1 then [TemperatureWarning] else []),
      (case Optimizer_init ps args of
         Inl e \<Rightarrow> Inl e
       | Inr gs \<Rightarrow>
           Inr (capture_groups gs
                  (\<lparr>param_groups = gs, state = Map.empty, save_noise = sv, noise = None\<rparr>, w))))"

subsection \<open>The step\<close>

text \<open>Lines 101 to 108: the drift \<open>dw\<close> of one parameter with gradient \<open>gr\<close>.\<close>

definition drift :: "group \<Rightarrow> addr \<Rightarrow> tensor \<Rightarrow> sgld \<Rightarrow> world \<Rightarrow> error + tensor" where
  "drift g p gr opt w =
     (let dw = mul_scalar gr (temperature g);
          dw = (if weight_decay g \<noteq> 0 then add_inplace dw (store w p) (weight_decay g) else dw)
      in if localization g \<noteq> 0
         then (case initial_param opt p of
                 None \<Rightarrow> Inl KeyError
               | Some a \<Rightarrow> Inr (add_inplace dw (sub (store w p) (store w a)) (localization g)))
         else Inr dw)"

text \<open>\<^verbatim>\<open>lr ** 0.5\<close> on a Python float: the square root, or a complex number if \<open>lr < 0\<close>.\<close>

definition pow_half :: "real \<Rightarrow> real option" where
  "pow_half x = (if x < 0 then None else Some (sqrt x))"

text \<open>Lines 116 and 117: the draw is appended to the log if diagnostics are on.\<close>

definition log_noise :: "tensor \<Rightarrow> sgld \<Rightarrow> error + sgld" where
  "log_noise nz opt =
     (if save_noise opt
      then (case noise opt of
              None \<Rightarrow> Inl NoneHasNoAppend
            | Some ns \<Rightarrow> Inr (opt\<lparr>noise := Some (ns @ [nz])\<rparr>))
      else Inr opt)"

text \<open>
  Lines 121 to 126: the clamp into the box around the anchor. The test
  \<^verbatim>\<open>if group["bounding_box_size"]:\<close> is false for \<^verbatim>\<open>None\<close> and for zero.
\<close>

definition rebound :: "group \<Rightarrow> addr \<Rightarrow> sgld \<Rightarrow> world \<Rightarrow> error + world" where
  "rebound g p opt w =
     (case bounding_box_size g of
        None \<Rightarrow> Inr w
      | Some b \<Rightarrow>
          if b \<noteq> 0
          then (case initial_param opt p of
                  None \<Rightarrow> Inl KeyError
                | Some a \<Rightarrow>
                    Inr (w\<lparr>store := (store w)(p := clamp_inplace (store w p)
                                                    (sub_scalar (store w a) b)
                                                    (add_scalar (store w a) b))\<rparr>))
          else Inr w)"

text \<open>Lines 100 to 126, the body of the loop for a parameter \<open>p\<close> with gradient \<open>gr\<close>.\<close>

definition update_param ::
  "group \<Rightarrow> addr \<Rightarrow> tensor \<Rightarrow> sgld \<times> world \<Rightarrow> error + sgld \<times> world" where
  "update_param g p gr = (\<lambda>(opt0, w).
     let opt = touch_state p opt0 in
     case drift g p gr opt w of
       Inl e \<Rightarrow> Inl e
     | Inr dw \<Rightarrow>
         let w1 = w\<lparr>store := (store w)(p := add_inplace (store w p) dw (- 0.5 * lr g))\<rparr> in
         (case torch_normal 0 (noise_level g) (shape dw) (device dw) w1 of
            Inl e \<Rightarrow> Inl e
          | Inr (nz, w2) \<Rightarrow>
              (case log_noise nz opt of
                 Inl e \<Rightarrow> Inl e
               | Inr opt' \<Rightarrow>
                   (case pow_half (lr g) of
                      None \<Rightarrow> Inl ComplexAlpha
                    | Some s \<Rightarrow>
                        let w3 = w2\<lparr>store := (store w2)(p := add_inplace (store w2 p) nz s)\<rparr> in
                        (case rebound g p opt' w3 of
                           Inl e \<Rightarrow> Inl e
                         | Inr w4 \<Rightarrow> Inr (opt', w4))))))"

text \<open>The two loops of \<^verbatim>\<open>step\<close>; a parameter whose \<^verbatim>\<open>p.grad\<close> is \<open>None\<close> is skipped.\<close>

fun step_params :: "group \<Rightarrow> addr list \<Rightarrow> sgld \<times> world \<Rightarrow> error + sgld \<times> world" where
  "step_params g [] s = Inr s"
| "step_params g (p # ps) s =
     (case grad (snd s) p of
        None \<Rightarrow> step_params g ps s
      | Some gr \<Rightarrow>
          (case update_param g p gr s of
             Inl e \<Rightarrow> Inl e
           | Inr s' \<Rightarrow> step_params g ps s'))"

fun step_groups :: "group list \<Rightarrow> sgld \<times> world \<Rightarrow> error + sgld \<times> world" where
  "step_groups [] s = Inr s"
| "step_groups (g # gs) s =
     (case step_params g (params g) s of
        Inl e \<Rightarrow> Inl e
      | Inr s' \<Rightarrow> step_groups gs s')"

definition step :: "sgld \<times> world \<Rightarrow> error + sgld \<times> world" where
  "step = (\<lambda>(opt, w). step_groups (param_groups opt) (opt\<lparr>noise := Some []\<rparr>, w))"

subsection \<open>The training loop\<close>

text \<open>
  The caller of the docstring's example: before each \<^verbatim>\<open>optimizer.step()\<close> the backward
  pass sets the gradients. A run is given by the gradients of its steps.
\<close>

fun steps :: "(addr \<rightharpoonup> tensor) list \<Rightarrow> sgld \<times> world \<Rightarrow> error + sgld \<times> world" where
  "steps [] s = Inr s"
| "steps (gr # grs) s =
     (case step (fst s, (snd s)\<lparr>grad := gr\<rparr>) of
        Inl e \<Rightarrow> Inl e
      | Inr s' \<Rightarrow> steps grs s')"

section \<open>Notions of the properties\<close>

text \<open>The parameters of all groups, and those a step processes, in the order of the loops.\<close>

definition all_params :: "sgld \<Rightarrow> addr list" where
  "all_params opt = concat (map params (param_groups opt))"

definition sched :: "group list \<Rightarrow> world \<Rightarrow> (group \<times> addr) list" where
  "sched gs w = concat (map (\<lambda>g. map (Pair g) (filter (\<lambda>p. grad w p \<noteq> None) (params g))) gs)"

text \<open>The two loops of the step as one loop over the pairs of a group and a parameter.\<close>

fun run_sched :: "(group \<times> addr) list \<Rightarrow> sgld \<times> world \<Rightarrow> error + sgld \<times> world" where
  "run_sched [] s = Inr s"
| "run_sched ((g, p) # r) s =
     (case grad (snd s) p of
        None \<Rightarrow> run_sched r s
      | Some gr \<Rightarrow>
          (case update_param g p gr s of
             Inl e \<Rightarrow> Inl e
           | Inr s' \<Rightarrow> run_sched r s'))"

text \<open>The Gaussian draws of a step, one for each processed parameter, in that order.\<close>

fun draws :: "(group \<times> addr) list \<Rightarrow> world \<Rightarrow> tensor list" where
  "draws [] w = []"
| "draws ((g, p) # r) w =
     (case grad w p of
        None \<Rightarrow> draws r w
      | Some gr \<Rightarrow>
          gaussian 0 (noise_level g) (shape gr) (device gr) w #
          draws r (w\<lparr>cursor := cursor w + numel (shape gr)\<rparr>))"

text \<open>
  What PyTorch and the constructor guarantee of the tensors: no parameter is listed twice,
  a gradient has as many elements as its parameter (and as its shape says), and an anchor
  is a cell of its own, no parameter's, with as many elements as its parameter.
\<close>

definition well_formed :: "sgld \<Rightarrow> world \<Rightarrow> bool" where
  "well_formed opt w \<longleftrightarrow>
     distinct (all_params opt) \<and>
     (\<forall>p \<in> set (all_params opt).
        (\<forall>gr. grad w p = Some gr \<longrightarrow>
           length (elems gr) = length (elems (store w p)) \<and>
           numel (shape gr) = length (elems gr)) \<and>
        (\<forall>a. initial_param opt p = Some a \<longrightarrow>
           a \<notin> set (all_params opt) \<and>
           length (elems (store w a)) = length (elems (store w p))))"

text \<open>
  The state of a construction begun in the world \<open>w0\<close>: the cells of \<open>w0\<close> are as they
  were, and every anchor is a cell allocated since, holding what its parameter held in
  \<open>w0\<close>.
\<close>

definition anchored :: "world \<Rightarrow> sgld \<times> world \<Rightarrow> bool" where
  "anchored w0 s \<longleftrightarrow>
     next_addr w0 \<le> next_addr (snd s) \<and>
     (\<forall>x < next_addr w0. store (snd s) x = store w0 x) \<and>
     (\<forall>q a. initial_param (fst s) q = Some a \<longrightarrow>
        q < next_addr w0 \<and> next_addr w0 \<le> a \<and> a < next_addr (snd s) \<and>
        store (snd s) a = store w0 q)"

text \<open>Every element of \<open>v\<close> lies within \<open>b\<close> of the element of \<open>anc\<close> at its place.\<close>

definition in_box :: "real \<Rightarrow> tensor \<Rightarrow> tensor \<Rightarrow> bool" where
  "in_box b anc v \<longleftrightarrow> list_all2 (\<lambda>x c. c - b \<le> x \<and> x \<le> c + b) (elems v) (elems anc)"

text \<open>The clamp of one element, as the specification words it.\<close>

definition spec_clamp :: "real option \<Rightarrow> real \<Rightarrow> real \<Rightarrow> real" where
  "spec_clamp bb c x =
     (case bb of
        None \<Rightarrow> x
      | Some b \<Rightarrow> if b \<noteq> 0 then min (max x (c - b)) (c + b) else x)"

section \<open>Example inputs\<close>

definition scalar :: "dtype \<Rightarrow> real \<Rightarrow> tensor" where
  "scalar ty x = \<lparr>shape = [], device = Cpu, dtype = ty, elems = [x]\<rparr>"

text \<open>
  A world with one parameter, at address 0, of value \<open>v\<close> and element type \<open>ty\<close>, its
  gradient \<open>gr\<close> if any, and a generator that yields \<open>z\<close> at every position.
\<close>

definition world1 :: "dtype \<Rightarrow> real \<Rightarrow> real option \<Rightarrow> real \<Rightarrow> world" where
  "world1 ty v gr z =
     \<lparr>store = (\<lambda>_. scalar ty v), next_addr = 1,
      grad = (\<lambda>p. if p = 0 then map_option (scalar ty) gr else None),
      default_dtype = Float32, gen = (\<lambda>_. z), cursor = 0\<rparr>"

text \<open>
  The optimizer built over the single parameter at address 0 and the world after the
  construction, and the state after one more step.
\<close>

definition built :: "config \<Rightarrow> bool \<Rightarrow> world \<Rightarrow> sgld \<times> world" where
  "built c sv w =
     (case snd (SGLD_init (Tensors [0]) c sv w) of
        Inr s \<Rightarrow> s
      | Inl e \<Rightarrow> (\<lparr>param_groups = [], state = Map.empty, save_noise = sv, noise = None\<rparr>, w))"

definition after :: "sgld \<times> world \<Rightarrow> sgld \<times> world" where
  "after s = (case step s of Inr s' \<Rightarrow> s' | Inl e \<Rightarrow> s)"

definition ran :: "(addr \<rightharpoonup> tensor) list \<Rightarrow> sgld \<times> world \<Rightarrow> sgld \<times> world" where
  "ran grs s = (case steps grs s of Inr s' \<Rightarrow> s' | Inl e \<Rightarrow> s)"

text \<open>The gradients of a backward pass that gives the parameter at address 0 the gradient \<open>x\<close>.\<close>

definition grad1 :: "real \<Rightarrow> addr \<rightharpoonup> tensor" where
  "grad1 x = (\<lambda>p. if p = 0 then Some (scalar Float32 x) else None)"

text \<open>The caller overwrites the parameter at address 0 with the value \<open>v\<close>.\<close>

definition drifted :: "real \<Rightarrow> sgld \<times> world \<Rightarrow> sgld \<times> world" where
  "drifted v s = (fst s, (snd s)\<lparr>store := (store (snd s))(0 := scalar Float32 v)\<rparr>)"

text \<open>The group that the constructor makes of the single parameter at address 0.\<close>

definition group1 :: "config \<Rightarrow> group" where
  "group1 c = fill_defaults c (plain_group [0])"

section \<open>Frame and value lemmas of the step\<close>

lemma tensor_op_fields [simp]:
  "shape (mul_scalar t c) = shape t" "device (mul_scalar t c) = device t" "dtype (mul_scalar t c) = dtype t"
  "shape (add_inplace t u c) = shape t" "device (add_inplace t u c) = device t" "dtype (add_inplace t u c) = dtype t"
  "shape (clamp_inplace t lo hi) = shape t" "device (clamp_inplace t lo hi) = device t"
  "dtype (clamp_inplace t lo hi) = dtype t"
  by (simp_all add: mul_scalar_def add_inplace_def clamp_inplace_def)

lemma initial_param_touch [simp]: "initial_param (touch_state p opt) = initial_param opt"
  by (auto simp: initial_param_def touch_state_def fun_eq_iff split: option.splits)

lemma touch_state_fields [simp]:
  "param_groups (touch_state p opt) = param_groups opt"
  "save_noise (touch_state p opt) = save_noise opt"
  "noise (touch_state p opt) = noise opt"
  by (simp_all add: touch_state_def split: option.splits)

lemma drift_shape: "drift g p gr opt w = Inr dw \<Longrightarrow> shape dw = shape gr \<and> device dw = device gr"
  by (auto simp: drift_def Let_def split: if_splits option.splits)

lemma log_noise_Inr:
  "log_noise nz opt = Inr opt' \<Longrightarrow>
     param_groups opt' = param_groups opt \<and> save_noise opt' = save_noise opt \<and>
     state opt' = state opt \<and>
     noise opt' = (if save_noise opt then map_option (\<lambda>ns. ns @ [nz]) (noise opt) else noise opt)"
  by (auto simp: log_noise_def split: if_splits option.splits)

lemma initial_param_cong: "state opt' = state opt \<Longrightarrow> initial_param opt' = initial_param opt"
  by (simp add: initial_param_def fun_eq_iff)

lemma rebound_Inr:
  "rebound g p opt w = Inr w' \<Longrightarrow>
     grad w' = grad w \<and> gen w' = gen w \<and> default_dtype w' = default_dtype w \<and>
     next_addr w' = next_addr w \<and> cursor w' = cursor w \<and> (\<forall>x. x \<noteq> p \<longrightarrow> store w' x = store w x)"
  by (auto simp: rebound_def split: if_splits option.splits)

lemma update_param_Inr:
  assumes "update_param g p gr (opt, w) = Inr (opt', w')"
  shows "grad w' = grad w" and "gen w' = gen w" and "default_dtype w' = default_dtype w"
    and "next_addr w' = next_addr w" and "cursor w' = cursor w + numel (shape gr)"
    and "x \<noteq> p \<Longrightarrow> store w' x = store w x"
    and "param_groups opt' = param_groups opt" and "save_noise opt' = save_noise opt"
    and "initial_param opt' = initial_param opt"
    and "noise opt' = (if save_noise opt
           then map_option (\<lambda>ns. ns @ [gaussian 0 (noise_level g) (shape gr) (device gr) w]) (noise opt)
           else noise opt)"
proof -
  from assms obtain dw nz w2 opt1 s w4 where
    d: "drift g p gr (touch_state p opt) w = Inr dw"
    and n: "torch_normal 0 (noise_level g) (shape dw) (device dw)
              (w\<lparr>store := (store w)(p := add_inplace (store w p) dw (- 0.5 * lr g))\<rparr>) = Inr (nz, w2)"
    and l: "log_noise nz (touch_state p opt) = Inr opt1"
    and s: "pow_half (lr g) = Some s"
    and r: "rebound g p opt1 (w2\<lparr>store := (store w2)(p := add_inplace (store w2 p) nz s)\<rparr>) = Inr w4"
    and e: "opt' = opt1" "w' = w4"
    by (auto simp: update_param_def Let_def split: sum.splits option.splits prod.splits)
  note sh = drift_shape[OF d]
  from n have w2: "w2 = w\<lparr>store := (store w)(p := add_inplace (store w p) dw (- 0.5 * lr g)),
        cursor := cursor w + numel (shape gr)\<rparr>"
    and nz: "nz = gaussian 0 (noise_level g) (shape gr) (device gr) w"
    by (auto simp: torch_normal_def sh gaussian_def split: if_splits)
  note rr = rebound_Inr[OF r]
  note ll = log_noise_Inr[OF l]
  show "grad w' = grad w" "gen w' = gen w" "default_dtype w' = default_dtype w"
    "next_addr w' = next_addr w" "cursor w' = cursor w + numel (shape gr)"
    using rr by (simp_all add: e w2)
  show "x \<noteq> p \<Longrightarrow> store w' x = store w x" using rr by (simp add: e w2)
  show "param_groups opt' = param_groups opt" "save_noise opt' = save_noise opt"
    using ll by (simp_all add: e)
  show "initial_param opt' = initial_param opt"
    using ll initial_param_cong[of opt1 "touch_state p opt"] by (simp add: e)
  show "noise opt' = (if save_noise opt
           then map_option (\<lambda>ns. ns @ [gaussian 0 (noise_level g) (shape gr) (device gr) w]) (noise opt)
           else noise opt)"
    using ll by (simp add: e nz)
qed


lemma step_params_sched: "step_params g ps s = run_sched (map (Pair g) ps) s"
  by (induction ps arbitrary: s) (auto split: option.splits sum.splits)

lemma run_sched_append:
  "run_sched (xs @ ys) s = (case run_sched xs s of Inl e \<Rightarrow> Inl e | Inr s' \<Rightarrow> run_sched ys s')"
  by (induction xs s rule: run_sched.induct) (auto split: option.splits sum.splits)

lemma step_groups_sched:
  "step_groups gs s = run_sched (concat (map (\<lambda>g. map (Pair g) (params g)) gs)) s"
  by (induction gs arbitrary: s) (auto simp: step_params_sched run_sched_append split: sum.splits)

lemma draws_cong:
  "grad w1 = grad w2 \<Longrightarrow> gen w1 = gen w2 \<Longrightarrow> default_dtype w1 = default_dtype w2 \<Longrightarrow>
   cursor w1 = cursor w2 \<Longrightarrow> draws r w1 = draws r w2"
proof (induction r arbitrary: w1 w2)
  case Nil
  then show ?case by simp
next
  case (Cons x r)
  obtain g p where x: "x = (g, p)" by (cases x)
  show ?case
  proof (cases "grad w2 p")
    case None
    then show ?thesis using Cons.prems Cons.IH[of w1 w2] by (simp add: x)
  next
    case (Some gr)
    have "draws r (w1\<lparr>cursor := cursor w1 + numel (shape gr)\<rparr>) =
          draws r (w2\<lparr>cursor := cursor w2 + numel (shape gr)\<rparr>)"
      by (rule Cons.IH) (simp_all add: Cons.prems)
    then show ?thesis using Cons.prems Some by (simp add: x gaussian_def)
  qed
qed

lemma run_sched_frame:
  assumes "run_sched r (opt, w) = Inr (opt', w')"
  shows "grad w' = grad w \<and> gen w' = gen w \<and> default_dtype w' = default_dtype w \<and>
         next_addr w' = next_addr w \<and>
         param_groups opt' = param_groups opt \<and> save_noise opt' = save_noise opt \<and>
         initial_param opt' = initial_param opt \<and>
         (\<forall>x. x \<notin> {q \<in> snd ` set r. grad w q \<noteq> None} \<longrightarrow> store w' x = store w x) \<and>
         noise opt' = (if save_noise opt then map_option (\<lambda>ns. ns @ draws r w) (noise opt)
                       else noise opt)"
  using assms
proof (induction r arbitrary: opt w)
  case Nil
  then show ?case by (simp add: option.map_ident)
next
  case (Cons x r)
  obtain g p where x: "x = (g, p)" by (cases x)
  show ?case
  proof (cases "grad w p")
    case None
    with Cons.prems have "run_sched r (opt, w) = Inr (opt', w')" by (simp add: x)
    from Cons.IH[OF this] None show ?thesis by (auto simp: x)
  next
    case (Some gr)
    with Cons.prems obtain opt1 w1 where
      u: "update_param g p gr (opt, w) = Inr (opt1, w1)"
      and r: "run_sched r (opt1, w1) = Inr (opt', w')"
      by (auto simp: x split: sum.splits)
    note U = update_param_Inr[OF u]
    note R = Cons.IH[OF r]
    have dr: "draws r w1 = draws r (w\<lparr>cursor := cursor w + numel (shape gr)\<rparr>)"
      by (rule draws_cong) (simp_all add: U)
    have st: "\<forall>x. x \<notin> {q \<in> snd ` set ((g, p) # r). grad w q \<noteq> None} \<longrightarrow> store w' x = store w x"
    proof (intro allI impI)
      fix y assume y: "y \<notin> {q \<in> snd ` set ((g, p) # r). grad w q \<noteq> None}"
      then have "y \<noteq> p" using Some by auto
      moreover have "y \<notin> {q \<in> snd ` set r. grad w1 q \<noteq> None}" using y by (auto simp: U)
      ultimately show "store w' y = store w y" using R U(6)[of y] by simp
    qed
    have n1: "noise opt1 = (if save_noise opt
           then map_option (\<lambda>ns. ns @ [gaussian 0 (noise_level g) (shape gr) (device gr) w]) (noise opt)
           else noise opt)" by (rule U(10))
    have n2: "noise opt' = (if save_noise opt1 then map_option (\<lambda>ns. ns @ draws r w1) (noise opt1)
                       else noise opt1)" using R by blast
    have nz: "noise opt' = (if save_noise opt then map_option (\<lambda>ns. ns @ draws ((g, p) # r) w) (noise opt)
                       else noise opt)"
      unfolding n2 n1 U(8) dr using Some by (cases "noise opt") simp_all
    have a1: "grad w' = grad w" using R U(1) by simp
    have a2: "gen w' = gen w" using R U(2) by simp
    have a3: "default_dtype w' = default_dtype w" using R U(3) by simp
    have a4: "next_addr w' = next_addr w" using R U(4) by simp
    have a5: "param_groups opt' = param_groups opt" using R U(7) by simp
    have a6: "save_noise opt' = save_noise opt" using R U(8) by simp
    have a7: "initial_param opt' = initial_param opt" using R U(9) by simp
    show ?thesis unfolding x
      by (intro conjI) (rule a1 a2 a3 a4 a5 a6 a7 st nz)+
  qed
qed


lemma drift_elems:
  assumes d: "drift g p gr opt w = Inr dw"
    and la: "\<forall>a. initial_param opt p = Some a \<longrightarrow>
               anc = elems (store w a) \<and> length anc = length (elems (store w p))"
    and lg: "length (elems gr) = length (elems (store w p))"
  shows "length (elems dw) = length (elems (store w p))"
    and "i < length (elems (store w p)) \<Longrightarrow>
         elems dw ! i = elems gr ! i * temperature g + weight_decay g * elems (store w p) ! i +
                        localization g * (elems (store w p) ! i - anc ! i)"
  using d la lg
  by (auto simp: drift_def Let_def mul_scalar_def add_inplace_def sub_def
           split: if_splits option.splits)

lemma gaussian_elems:
  "length (elems (gaussian m sd sz dev w)) = numel sz"
  "i < numel sz \<Longrightarrow> elems (gaussian m sd sz dev w) ! i = m + sd * gen w (cursor w + i)"
  by (simp_all add: gaussian_def)

lemma gaussian_fields [simp]:
  "shape (gaussian m sd sz dev w) = sz" "device (gaussian m sd sz dev w) = dev"
  "dtype (gaussian m sd sz dev w) = default_dtype w"
  by (simp_all add: gaussian_def)

lemma drift_touch [simp]: "drift g p gr (touch_state q opt) w = drift g p gr opt w"
  by (simp add: drift_def Let_def)

lemma update_param_value:
  assumes u: "update_param g p gr (opt, w) = Inr (opt', w')"
    and la: "\<forall>a. initial_param opt p = Some a \<longrightarrow>
               a \<noteq> p \<and> anc = elems (store w a) \<and> length anc = length (elems (store w p))"
    and lg: "length (elems gr) = length (elems (store w p))" "numel (shape gr) = length (elems gr)"
  shows "length (elems (store w' p)) = length (elems (store w p))"
    and "i < length (elems (store w p)) \<Longrightarrow>
         elems (store w' p) ! i =
           spec_clamp (bounding_box_size g) (anc ! i)
             (elems (store w p) ! i
              - 0.5 * lr g * (elems gr ! i * temperature g + weight_decay g * elems (store w p) ! i +
                              localization g * (elems (store w p) ! i - anc ! i))
              + sqrt (lr g) * elems (gaussian 0 (noise_level g) (shape gr) (device gr) w) ! i)"
proof -
  from u obtain dw nz w2 opt1 s w4 where
    d: "drift g p gr opt w = Inr dw"
    and n: "torch_normal 0 (noise_level g) (shape dw) (device dw)
              (w\<lparr>store := (store w)(p := add_inplace (store w p) dw (- 0.5 * lr g))\<rparr>) = Inr (nz, w2)"
    and l: "log_noise nz (touch_state p opt) = Inr opt1"
    and s: "pow_half (lr g) = Some s"
    and r: "rebound g p opt1 (w2\<lparr>store := (store w2)(p := add_inplace (store w2 p) nz s)\<rparr>) = Inr w4"
    and e: "opt' = opt1" "w' = w4"
    by (auto simp: update_param_def Let_def split: sum.splits option.splits prod.splits)
  note sh = drift_shape[OF d]
  from n have w2: "w2 = w\<lparr>store := (store w)(p := add_inplace (store w p) dw (- 0.5 * lr g)),
        cursor := cursor w + numel (shape gr)\<rparr>"
    and nz: "nz = gaussian 0 (noise_level g) (shape gr) (device gr) w"
    by (auto simp: torch_normal_def sh gaussian_def split: if_splits)
  have la': "\<forall>a. initial_param opt p = Some a \<longrightarrow>
               anc = elems (store w a) \<and> length anc = length (elems (store w p))"
    using la by blast
  note D = drift_elems[OF d la' lg(1)]
  have ip: "initial_param opt1 = initial_param opt"
    using log_noise_Inr[OF l] initial_param_cong[of opt1 "touch_state p opt"] by simp
  have ss: "s = sqrt (lr g)" using s by (auto simp: pow_half_def split: if_splits)
  define n where "n = length (elems (store w p))"
  have ln: "length (elems nz) = n" by (simp add: nz gaussian_elems lg n_def)
  define v2 where "v2 = add_inplace (add_inplace (store w p) dw (- 0.5 * lr g)) nz s"
  have lv2: "length (elems v2) = n" using D(1) ln by (simp add: v2_def add_inplace_def n_def)
  have ev2: "i < n \<Longrightarrow> elems v2 ! i = elems (store w p) ! i
              - 0.5 * lr g * (elems gr ! i * temperature g + weight_decay g * elems (store w p) ! i +
                              localization g * (elems (store w p) ! i - anc ! i))
              + sqrt (lr g) * elems nz ! i" for i
    using D(1) D(2)[of i] ln by (simp add: v2_def add_inplace_def n_def ss)
  have w4: "store w4 p = (case bounding_box_size g of None \<Rightarrow> v2
            | Some b \<Rightarrow> if b \<noteq> 0 then
                 clamp_inplace v2 (sub_scalar (store w (the (initial_param opt p))) b)
                                  (add_scalar (store w (the (initial_param opt p))) b)
               else v2)" and ex: "(\<exists>b. bounding_box_size g = Some b \<and> b \<noteq> 0) \<longrightarrow> initial_param opt p \<noteq> None"
    using r la by (auto simp: rebound_def ip w2 v2_def split: option.splits if_splits)
  show "length (elems (store w' p)) = length (elems (store w p))"
    using lv2 la ex by (auto simp: e w4 n_def clamp_inplace_def sub_scalar_def add_scalar_def
        split: option.splits)
  show "elems (store w' p) ! i =
           spec_clamp (bounding_box_size g) (anc ! i)
             (elems (store w p) ! i
              - 0.5 * lr g * (elems gr ! i * temperature g + weight_decay g * elems (store w p) ! i +
                              localization g * (elems (store w p) ! i - anc ! i))
              + sqrt (lr g) * elems (gaussian 0 (noise_level g) (shape gr) (device gr) w) ! i)"
    if "i < length (elems (store w p))"
    using that lv2 la ex ev2[of i]
    by (auto simp: e w4 n_def nz spec_clamp_def clamp_inplace_def sub_scalar_def add_scalar_def
        split: option.splits)
qed


lemma run_sched_value:
  assumes "run_sched r (opt, w) = Inr (opt', w')"
    and "distinct (map snd r)"
    and "\<forall>q \<in> snd ` set r. \<exists>gq. grad w q = Some gq \<and>
            length (elems gq) = length (elems (store w q)) \<and> numel (shape gq) = length (elems gq)"
    and "\<forall>q \<in> snd ` set r. \<forall>a. initial_param opt q = Some a \<longrightarrow>
            a \<notin> snd ` set r \<and> length (elems (store w a)) = length (elems (store w q))"
    and "k < length r" and "r ! k = (g, p)" and "grad w p = Some gr"
    and "\<forall>a. initial_param opt p = Some a \<longrightarrow> anc = elems (store w a)"
  shows "length (elems (store w' p)) = length (elems (store w p)) \<and>
         (\<forall>i < length (elems (store w p)).
            elems (store w' p) ! i =
              spec_clamp (bounding_box_size g) (anc ! i)
                (elems (store w p) ! i
                 - 0.5 * lr g * (elems gr ! i * temperature g + weight_decay g * elems (store w p) ! i +
                                 localization g * (elems (store w p) ! i - anc ! i))
                 + sqrt (lr g) * elems (draws r w ! k) ! i))"
  using assms
proof (induction r arbitrary: opt w k)
  case Nil
  then show ?case by simp
next
  case (Cons x r)
  obtain g0 q where x: "x = (g0, q)" by (cases x)
  from Cons.prems(3) obtain gq where gq: "grad w q = Some gq"
    "length (elems gq) = length (elems (store w q))" "numel (shape gq) = length (elems gq)"
    by (auto simp: x)
  with Cons.prems(1) obtain opt1 w1 where
    u: "update_param g0 q gq (opt, w) = Inr (opt1, w1)"
    and r: "run_sched r (opt1, w1) = Inr (opt', w')"
    by (auto simp: x split: sum.splits)
  note U = update_param_Inr[OF u]
  note R = run_sched_frame[OF r]
  have qr: "q \<notin> snd ` set r" and dr: "distinct (map snd r)"
    using Cons.prems(2) by (auto simp: x)
  show ?case
  proof (cases k)
    case 0
    then have pq: "p = q" "g = g0" using Cons.prems(6) by (simp_all add: x)
    have gr: "gq = gr" using Cons.prems(7) gq(1) by (simp add: pq)
    have la: "\<forall>a. initial_param opt q = Some a \<longrightarrow>
               a \<noteq> q \<and> anc = elems (store w a) \<and> length anc = length (elems (store w q))"
      using Cons.prems(4) Cons.prems(8) by (auto simp: x pq)
    note V = update_param_value[OF u la gq(2) gq(3)]
    have st: "store w' q = store w1 q" using R qr by auto
    have d0: "draws (x # r) w ! k = gaussian 0 (noise_level g0) (shape gq) (device gq) w"
      using gq(1) by (simp add: x 0)
    show ?thesis unfolding d0 st pq gr[symmetric] using V by blast
  next
    case (Suc j)
    then have j: "j < length r" "r ! j = (g, p)" using Cons.prems(5,6) by simp_all
    then have pr: "p \<in> snd ` set r" by (metis nth_mem snd_conv image_eqI)
    then have pq: "p \<noteq> q" using qr by auto
    have sw: "\<And>y. y \<noteq> q \<Longrightarrow> store w1 y = store w y" by (rule U(6))
    have p3: "\<forall>q' \<in> snd ` set r. \<exists>gq. grad w1 q' = Some gq \<and>
            length (elems gq) = length (elems (store w1 q')) \<and> numel (shape gq) = length (elems gq)"
    proof
      fix q' assume q': "q' \<in> snd ` set r"
      then have "q' \<noteq> q" using qr by auto
      moreover have "q' \<in> snd ` set (x # r)" using q' by auto
      ultimately have e: "store w1 q' = store w q'"
        and f: "\<exists>gq. grad w q' = Some gq \<and>
            length (elems gq) = length (elems (store w q')) \<and> numel (shape gq) = length (elems gq)"
        using bspec[OF Cons.prems(3), of q'] sw[of q'] by blast+
      show "\<exists>gq. grad w1 q' = Some gq \<and>
            length (elems gq) = length (elems (store w1 q')) \<and> numel (shape gq) = length (elems gq)"
        unfolding e U(1) by (rule f)
    qed
    have p4: "\<forall>q' \<in> snd ` set r. \<forall>a. initial_param opt1 q' = Some a \<longrightarrow>
            a \<notin> snd ` set r \<and> length (elems (store w1 a)) = length (elems (store w1 q'))"
    proof (intro ballI allI impI)
      fix q' a assume q': "q' \<in> snd ` set r" and a: "initial_param opt1 q' = Some a"
      have n: "q' \<noteq> q" using q' qr by auto
      have m: "q' \<in> snd ` set (x # r)" using q' by auto
      have ia: "initial_param opt q' = Some a" using a by (simp add: U(9))
      from Cons.prems(4) m ia have A: "a \<notin> snd ` set (x # r)"
        "length (elems (store w a)) = length (elems (store w q'))" by blast+
      then have "a \<noteq> q" by (auto simp: x)
      then show "a \<notin> snd ` set r \<and> length (elems (store w1 a)) = length (elems (store w1 q'))"
        using A sw[of a] sw[of q'] n by auto
    qed
    have p7: "grad w1 p = Some gr" using Cons.prems(7) by (simp add: U(1))
    have p8: "\<forall>a. initial_param opt1 p = Some a \<longrightarrow> anc = elems (store w1 a)"
    proof (intro allI impI)
      fix a assume "initial_param opt1 p = Some a"
      then have ia: "initial_param opt p = Some a" by (simp add: U(9))
      have "p \<in> snd ` set (x # r)" using pr by auto
      with Cons.prems(4) ia have "a \<notin> snd ` set (x # r)" by blast
      then have "a \<noteq> q" by (auto simp: x)
      then show "anc = elems (store w1 a)" using Cons.prems(8) ia sw[of a] by simp
    qed
    note IH = Cons.IH[OF r dr p3 p4 j(1) j(2) p7 p8]
    have dc: "draws r w1 = draws r (w\<lparr>cursor := cursor w + numel (shape gq)\<rparr>)"
      by (rule draws_cong) (simp_all add: U)
    have dk: "draws (x # r) w ! k = draws r w1 ! j"
      using gq(1) by (simp add: x Suc dc)
    show ?thesis unfolding dk using IH by (simp add: sw[OF pq])
  qed
qed

lemma run_sched_filter:
  "run_sched r s = run_sched (filter (\<lambda>x. grad (snd s) (snd x) \<noteq> None) r) s"
proof (induction r arbitrary: s)
  case Nil
  then show ?case by simp
next
  case (Cons x r)
  obtain g p where x: "x = (g, p)" by (cases x)
  obtain opt w where s: "s = (opt, w)" by (cases s)
  show ?case
  proof (cases "grad w p")
    case None
    then show ?thesis using Cons.IH[of s] by (simp add: x s)
  next
    case (Some gr)
    show ?thesis
    proof (cases "update_param g p gr (opt, w)")
      case (Inl e)
      then show ?thesis using Some by (simp add: x s)
    next
      case (Inr s')
      obtain opt1 w1 where s': "s' = (opt1, w1)" by (cases s')
      have "grad w1 = grad w" using update_param_Inr(1)[of g p gr opt w opt1 w1] Inr s' by simp
      then show ?thesis using Cons.IH[of s'] Some Inr by (simp add: x s s')
    qed
  qed
qed

lemma draws_filter: "draws r w = draws (filter (\<lambda>x. grad w (snd x) \<noteq> None) r) w"
proof (induction r arbitrary: w)
  case Nil
  then show ?case by simp
next
  case (Cons x r)
  obtain g p where x: "x = (g, p)" by (cases x)
  show ?case
  proof (cases "grad w p")
    case None
    then show ?thesis using Cons.IH[of w] by (simp add: x)
  next
    case (Some gr)
    then show ?thesis using Cons.IH[of "w\<lparr>cursor := cursor w + numel (shape gr)\<rparr>"] by (simp add: x)
  qed
qed

lemma sched_filter:
  "sched gs w = filter (\<lambda>x. grad w (snd x) \<noteq> None) (concat (map (\<lambda>g. map (Pair g) (params g)) gs))"
proof -
  have "filter (\<lambda>x. grad w (snd x) \<noteq> None) (map (Pair g) ps) =
        map (Pair g) (filter (\<lambda>p. grad w p \<noteq> None) ps)" for g :: group and ps
    by (induction ps) simp_all
  then show ?thesis by (induction gs) (simp_all add: sched_def)
qed

lemma step_sched:
  "step (opt, w) = run_sched (sched (param_groups opt) w) (opt\<lparr>noise := Some []\<rparr>, w)"
  using run_sched_filter[of "concat (map (\<lambda>g. map (Pair g) (params g)) (param_groups opt))"
      "(opt\<lparr>noise := Some []\<rparr>, w)"]
  by (simp add: step_def step_groups_sched sched_filter)

lemma sched_snd: "map snd (sched gs w) = filter (\<lambda>p. grad w p \<noteq> None) (concat (map params gs))"
proof -
  have "map snd (map (Pair g) ps) = ps" for g :: group and ps :: "addr list"
    by (induction ps) simp_all
  then show ?thesis by (induction gs) (simp_all add: sched_def)
qed

lemma draws_length: "\<forall>x \<in> set r. grad w (snd x) \<noteq> None \<Longrightarrow> length (draws r w) = length r"
proof (induction r arbitrary: w)
  case Nil
  then show ?case by simp
next
  case (Cons x r)
  obtain g p where x: "x = (g, p)" by (cases x)
  from Cons.prems obtain gr where gr: "grad w p = Some gr" by (auto simp: x)
  have "length (draws r (w\<lparr>cursor := cursor w + numel (shape gr)\<rparr>)) = length r"
    by (rule Cons.IH) (use Cons.prems in simp)
  then show ?case using gr by (simp add: x)
qed

lemma sched_has_grad: "x \<in> set (sched gs w) \<Longrightarrow> grad w (snd x) \<noteq> None"
  by (simp add: sched_filter)

lemma step_frame:
  assumes "step (opt, w) = Inr (opt', w')"
  shows "grad w' = grad w" and "gen w' = gen w" and "default_dtype w' = default_dtype w"
    and "next_addr w' = next_addr w" and "param_groups opt' = param_groups opt"
    and "save_noise opt' = save_noise opt" and "initial_param opt' = initial_param opt"
    and "x \<notin> set (all_params opt) \<or> grad w x = None \<Longrightarrow> store w' x = store w x"
    and "noise opt' = Some (if save_noise opt then draws (sched (param_groups opt) w) w else [])"
proof -
  let ?r = "sched (param_groups opt) w"
  from assms have r: "run_sched ?r (opt\<lparr>noise := Some []\<rparr>, w) = Inr (opt', w')"
    by (simp add: step_sched)
  note F = run_sched_frame[OF r]
  have ip: "initial_param (opt\<lparr>noise := Some []\<rparr>) = initial_param opt"
    by (simp add: initial_param_def fun_eq_iff)
  show "grad w' = grad w" "gen w' = gen w" "default_dtype w' = default_dtype w"
    "next_addr w' = next_addr w" "param_groups opt' = param_groups opt"
    "save_noise opt' = save_noise opt"
    using F by simp_all
  show "initial_param opt' = initial_param opt" using F ip by simp
  show "noise opt' = Some (if save_noise opt then draws ?r w else [])" using F by simp
  show "store w' x = store w x" if "x \<notin> set (all_params opt) \<or> grad w x = None"
  proof -
    have "set (map snd ?r) = set (filter (\<lambda>p. grad w p \<noteq> None) (all_params opt))"
      by (simp only: sched_snd all_params_def)
    then have "snd ` set ?r = {p \<in> set (all_params opt). grad w p \<noteq> None}"
      by simp
    then have "x \<notin> {q \<in> snd ` set ?r. grad w q \<noteq> None}" using that by auto
    then show ?thesis using F by blast
  qed
qed

lemmas ex_defs = built_def after_def SGLD_init_def Optimizer_init_def plain_group_def fill_defaults_def
  or_default_def default_args_def ne_zero_def capture_def world1_def scalar_def
  step_def update_param_def drift_def touch_state_def torch_normal_def gaussian_def log_noise_def
  pow_half_def rebound_def initial_param_def mul_scalar_def add_inplace_def sub_def sub_scalar_def
  add_scalar_def clamp_inplace_def numel_def Let_def ran_def grad1_def drifted_def group1_def

lemma capture_fields:
  assumes "capture p (opt, w) = (opt', w')"
  shows "param_groups opt' = param_groups opt" and "save_noise opt' = save_noise opt"
    and "noise opt' = noise opt" and "grad w' = grad w" and "gen w' = gen w"
    and "default_dtype w' = default_dtype w" and "cursor w' = cursor w"
  using assms by (auto simp: capture_def Let_def)

lemma capture_params_fields:
  assumes "capture_params ps (opt, w) = (opt', w')"
  shows "param_groups opt' = param_groups opt \<and> save_noise opt' = save_noise opt \<and>
         noise opt' = noise opt \<and> grad w' = grad w \<and> gen w' = gen w \<and>
         default_dtype w' = default_dtype w \<and> cursor w' = cursor w"
  using assms
proof (induction ps arbitrary: opt w)
  case Nil
  then show ?case by simp
next
  case (Cons p ps)
  obtain opt1 w1 where c: "capture p (opt, w) = (opt1, w1)" by (cases "capture p (opt, w)")
  with Cons.prems have "capture_params ps (opt1, w1) = (opt', w')" by simp
  from Cons.IH[OF this] capture_fields[OF c] show ?case by simp
qed

lemma capture_groups_fields:
  assumes "capture_groups gs (opt, w) = (opt', w')"
  shows "param_groups opt' = param_groups opt \<and> save_noise opt' = save_noise opt \<and>
         noise opt' = noise opt \<and> grad w' = grad w \<and> gen w' = gen w \<and>
         default_dtype w' = default_dtype w \<and> cursor w' = cursor w"
  using assms
proof (induction gs arbitrary: opt w)
  case Nil
  then show ?case by simp
next
  case (Cons g gs)
  show ?case
  proof (cases "localization g \<noteq> 0 \<or> ne_zero (bounding_box_size g)")
    case True
    obtain opt1 w1 where c: "capture_params (params g) (opt, w) = (opt1, w1)"
      by (cases "capture_params (params g) (opt, w)")
    with Cons.prems True have "capture_groups gs (opt1, w1) = (opt', w')" by simp
    from Cons.IH[OF this] capture_params_fields[OF c] show ?thesis by simp
  next
    case False
    with Cons.prems have "capture_groups gs (opt, w) = (opt', w')" by simp
    from Cons.IH[OF this] show ?thesis .
  qed
qed

lemma SGLD_init_Inr:
  assumes "snd (SGLD_init ps args sv w) = Inr (opt, w1)"
  shows "\<exists>gs. Optimizer_init ps args = Inr gs \<and>
           capture_groups gs (\<lparr>param_groups = gs, state = Map.empty, save_noise = sv, noise = None\<rparr>, w)
             = (opt, w1)"
  using assms by (auto simp: SGLD_init_def split: sum.splits)

section \<open>Construction\<close>

text \<open>
  C1 claims that no anchor is captured for a parameter whose group has
  \<open>localization = 0\<close> and no \<open>bounding_box_size\<close>. The test of line 89 compares the
  box with \<^verbatim>\<open>!= 0\<close>, and \<^verbatim>\<open>None != 0\<close> is true: with the default arguments of the
  constructor (localization 0, box \<^verbatim>\<open>None\<close>) the single parameter at address 0 gets an
  anchor, the clone at address 1 holding the parameter's value 10.
\<close>

theorem default_box_captures_anchor:
  "localization default_args = 0 \<and> bounding_box_size default_args = None \<and>
   snd (SGLD_init (Tensors [0]) default_args False (world1 Float32 10 None 0))
     = Inr (built default_args False (world1 Float32 10 None 0)) \<and>
   initial_param (fst (built default_args False (world1 Float32 10 None 0))) 0 = Some 1 \<and>
   store (snd (built default_args False (world1 Float32 10 None 0))) 1 = scalar Float32 10"
  by (simp add: ex_defs)

section \<open>What a step leaves alone\<close>

text \<open>
  C6: a parameter that carries no gradient is skipped by \<^verbatim>\<open>step()\<close>: whenever the step
  returns, the tensor of such a parameter is exactly the one it was before.
\<close>

theorem step_skips_param_without_grad:
  assumes "step (opt, w) = Inr (opt', w')" and "grad w p = None"
  shows "store w' p = store w p"
  using step_frame(8)[OF assms(1), of p] assms(2) by simp

theorem step_skips_param_without_grad_witness:
  "step (built default_args False (world1 Float32 10 None 0))
     = Inr (after (built default_args False (world1 Float32 10 None 0))) \<and>
   grad (snd (built default_args False (world1 Float32 10 None 0))) 0 = None \<and>
   0 \<in> set (all_params (fst (built default_args False (world1 Float32 10 None 0)))) \<and>
   store (snd (after (built default_args False (world1 Float32 10 None 0)))) 0
     = store (snd (built default_args False (world1 Float32 10 None 0))) 0"
proof -
  let ?s = "built default_args False (world1 Float32 10 None 0)"
  have 1: "step (fst ?s, snd ?s) = Inr (fst (after ?s), snd (after ?s))"
    by (simp add: ex_defs)
  have 2: "grad (snd ?s) 0 = None" by (simp add: ex_defs)
  have 3: "0 \<in> set (all_params (fst ?s))" by (simp add: ex_defs all_params_def)
  from step_skips_param_without_grad[OF 1 2] 1 2 3 show ?thesis by simp
qed

section \<open>The noise log\<close>

text \<open>
  C5: whatever the log held before, after a step it holds, when diagnostics are on, exactly
  the draws of this step, one for each processed parameter (each listed parameter with a
  gradient) in the order of processing; when diagnostics are off it is the empty list.
\<close>

theorem noise_log_after_step:
  assumes "step (opt, w) = Inr (opt', w')"
  shows "noise opt' = Some (if save_noise opt then draws (sched (param_groups opt) w) w else []) \<and>
         length (draws (sched (param_groups opt) w) w)
           = length (filter (\<lambda>p. grad w p \<noteq> None) (all_params opt)) \<and>
         save_noise opt' = save_noise opt"
proof (intro conjI)
  show "noise opt' = Some (if save_noise opt then draws (sched (param_groups opt) w) w else [])"
    by (rule step_frame(9)[OF assms])
  have "length (draws (sched (param_groups opt) w) w) = length (sched (param_groups opt) w)"
    by (rule draws_length) (simp add: sched_has_grad)
  also have "\<dots> = length (map snd (sched (param_groups opt) w))" by simp
  also have "\<dots> = length (filter (\<lambda>p. grad w p \<noteq> None) (all_params opt))"
    by (simp only: sched_snd all_params_def)
  finally show "length (draws (sched (param_groups opt) w) w)
           = length (filter (\<lambda>p. grad w p \<noteq> None) (all_params opt))" .
  show "save_noise opt' = save_noise opt" by (rule step_frame(6)[OF assms])
qed

theorem noise_log_after_step_witness:
  "step (built default_args True (world1 Float32 10 (Some 2) 3))
     = Inr (after (built default_args True (world1 Float32 10 (Some 2) 3))) \<and>
   save_noise (fst (built default_args True (world1 Float32 10 (Some 2) 3))) \<and>
   noise (fst (after (built default_args True (world1 Float32 10 (Some 2) 3))))
     = Some [scalar Float32 3]"
proof -
  let ?s = "built default_args True (world1 Float32 10 (Some 2) 3)"
  have 1: "step (fst ?s, snd ?s) = Inr (fst (after ?s), snd (after ?s))"
    by (simp add: ex_defs)
  have 2: "save_noise (fst ?s)" by (simp add: ex_defs)
  have 3: "draws (sched (param_groups (fst ?s)) (snd ?s)) (snd ?s) = [scalar Float32 3]"
    by (simp add: ex_defs sched_def)
  from noise_log_after_step[OF 1] 1 2 3 show ?thesis by simp
qed

text \<open>
  C10: the constructor leaves \<^verbatim>\<open>self.noise\<close> at \<open>None\<close>, whether diagnostics are on or
  not; after a step it is a list.
\<close>

theorem noise_is_None_until_first_step:
  "(snd (SGLD_init ps args sv w) = Inr (opt, w1) \<longrightarrow> noise opt = None) \<and>
   (step (opt2, w2) = Inr (opt3, w3) \<longrightarrow> (\<exists>ns. noise opt3 = Some ns))"
proof (intro conjI impI)
  assume "snd (SGLD_init ps args sv w) = Inr (opt, w1)"
  from SGLD_init_Inr[OF this] obtain gs where
    "capture_groups gs (\<lparr>param_groups = gs, state = Map.empty, save_noise = sv, noise = None\<rparr>, w)
             = (opt, w1)" by blast
  from capture_groups_fields[OF this] show "noise opt = None" by simp
next
  assume "step (opt2, w2) = Inr (opt3, w3)"
  from step_frame(9)[OF this] show "\<exists>ns. noise opt3 = Some ns" by blast
qed

theorem noise_is_None_until_first_step_witness:
  "snd (SGLD_init (Tensors [0]) default_args True (world1 Float32 10 (Some 2) 3))
     = Inr (built default_args True (world1 Float32 10 (Some 2) 3)) \<and>
   noise (fst (built default_args True (world1 Float32 10 (Some 2) 3))) = None \<and>
   step (built default_args True (world1 Float32 10 (Some 2) 3))
     = Inr (after (built default_args True (world1 Float32 10 (Some 2) 3))) \<and>
   noise (fst (after (built default_args True (world1 Float32 10 (Some 2) 3)))) \<noteq> None"
proof -
  let ?w = "world1 Float32 10 (Some 2) 3"
  let ?s = "built default_args True ?w"
  have 1: "snd (SGLD_init (Tensors [0]) default_args True ?w) = Inr (fst ?s, snd ?s)"
    by (simp add: ex_defs)
  have 2: "step (fst ?s, snd ?s) = Inr (fst (after ?s), snd (after ?s))"
    by (simp add: ex_defs)
  from noise_is_None_until_first_step[of "Tensors [0]" default_args True ?w "fst ?s" "snd ?s"
      "fst ?s" "snd ?s" "fst (after ?s)" "snd (after ?s)"] 1 2
  show ?thesis by auto
qed

section \<open>Warnings of the constructor\<close>

lemma Optimizer_init_Tensors:
  "Optimizer_init (Tensors (x # xs)) args = Inr [fill_defaults args (plain_group (x # xs))]"
  by (simp add: Optimizer_init_def)

text \<open>
  C8: the constructor warns about the noise level exactly when \<open>noise_level \<noteq> 1\<close> and
  about the temperature exactly when \<open>temperature = 1\<close>, so there is no warning for
  \<open>noise_level = 1\<close> and \<open>temperature \<noteq> 1\<close>. The warnings do not decide the outcome:
  the constructor returns an optimizer exactly when the base class accepts the parameters,
  which it always does for a non-empty list of tensors.
\<close>

theorem construction_warnings:
  "(NoiseLevelWarning \<in> set (fst (SGLD_init ps args sv w)) \<longleftrightarrow> noise_level args \<noteq> 1) \<and>
   (TemperatureWarning \<in> set (fst (SGLD_init ps args sv w)) \<longleftrightarrow> temperature args = 1) \<and>
   (noise_level args = 1 \<and> temperature args \<noteq> 1 \<longrightarrow> fst (SGLD_init ps args sv w) = []) \<and>
   ((\<exists>s. snd (SGLD_init ps args sv w) = Inr s) \<longleftrightarrow> (\<exists>gs. Optimizer_init ps args = Inr gs)) \<and>
   (\<exists>s. snd (SGLD_init (Tensors (x # xs)) args sv w) = Inr s)"
  by (auto simp: SGLD_init_def Optimizer_init_Tensors split: sum.splits)

theorem construction_warnings_witness:
  "fst (SGLD_init (Tensors [0]) (default_args\<lparr>noise_level := 2\<rparr>) False (world1 Float32 10 None 0))
     = [NoiseLevelWarning, TemperatureWarning] \<and>
   snd (SGLD_init (Tensors [0]) (default_args\<lparr>noise_level := 2\<rparr>) False (world1 Float32 10 None 0))
     = Inr (built (default_args\<lparr>noise_level := 2\<rparr>) False (world1 Float32 10 None 0)) \<and>
   noise_level (default_args\<lparr>temperature := 1 / 2\<rparr>) = 1 \<and>
   temperature (default_args\<lparr>temperature := 1 / 2\<rparr>) \<noteq> 1 \<and>
   fst (SGLD_init (Tensors [0]) (default_args\<lparr>temperature := 1 / 2\<rparr>) False
          (world1 Float32 10 None 0)) = []"
proof -
  have 1: "noise_level (default_args\<lparr>temperature := 1 / 2\<rparr>) = 1 \<and>
           temperature (default_args\<lparr>temperature := 1 / 2\<rparr>) \<noteq> 1"
    by (simp add: default_args_def)
  have 2: "fst (SGLD_init (Tensors [0]) (default_args\<lparr>noise_level := 2\<rparr>) False
             (world1 Float32 10 None 0)) = [NoiseLevelWarning, TemperatureWarning]"
    by (simp add: SGLD_init_def default_args_def)
  have 3: "snd (SGLD_init (Tensors [0]) (default_args\<lparr>noise_level := 2\<rparr>) False
             (world1 Float32 10 None 0))
           = Inr (built (default_args\<lparr>noise_level := 2\<rparr>) False (world1 Float32 10 None 0))"
    by (simp add: ex_defs)
  from construction_warnings[of "Tensors [0]" "default_args\<lparr>temperature := 1 / 2\<rparr>" False
      "world1 Float32 10 None 0" 0 "[]"] 1 2 3
  show ?thesis by blast
qed

section \<open>The anchors\<close>

lemma capture_eq:
  "next_addr (snd (capture p (opt, w))) = Suc (next_addr w)"
  "store (snd (capture p (opt, w))) = (store w)(next_addr w := store w p)"
  "initial_param (fst (capture p (opt, w))) = (initial_param opt)(p \<mapsto> next_addr w)"
  by (auto simp: capture_def Let_def initial_param_def fun_eq_iff split: option.splits)

lemma capture_anchored:
  assumes "anchored w0 s" and "p < next_addr w0"
  shows "anchored w0 (capture p s)"
    and "initial_param (fst (capture p s)) p \<noteq> None"
    and "initial_param (fst s) q \<noteq> None \<Longrightarrow> initial_param (fst (capture p s)) q \<noteq> None"
proof -
  obtain opt w where s: "s = (opt, w)" by (cases s)
  from assms(1) have n: "next_addr w0 \<le> next_addr w"
    and o: "\<And>x. x < next_addr w0 \<Longrightarrow> store w x = store w0 x"
    and i: "\<And>q a. initial_param opt q = Some a \<Longrightarrow>
        q < next_addr w0 \<and> next_addr w0 \<le> a \<and> a < next_addr w \<and> store w a = store w0 q"
    by (auto simp: anchored_def s)
  have "next_addr w0 \<le> Suc (next_addr w)" using n by simp
  moreover have "((store w)(next_addr w := store w p)) x = store w0 x"
    if "x < next_addr w0" for x
    using that n o[of x] by simp
  moreover have "q < next_addr w0 \<and> next_addr w0 \<le> a \<and> a < Suc (next_addr w) \<and>
        ((store w)(next_addr w := store w p)) a = store w0 q"
    if "((initial_param opt)(p \<mapsto> next_addr w)) q = Some a" for q a
  proof (cases "q = p")
    case True
    then have "a = next_addr w" using that by simp
    then show ?thesis using True assms(2) n o[of p] by simp
  next
    case False
    then have "initial_param opt q = Some a" using that by simp
    from i[OF this] show ?thesis by auto
  qed
  ultimately show "anchored w0 (capture p s)"
    unfolding anchored_def s capture_eq by blast
  show "initial_param (fst (capture p s)) p \<noteq> None" by (simp add: s capture_eq)
  show "initial_param (fst s) q \<noteq> None \<Longrightarrow> initial_param (fst (capture p s)) q \<noteq> None"
    by (simp add: s capture_eq)
qed

lemma capture_params_anchored:
  assumes "anchored w0 s" and "\<forall>p \<in> set ps. p < next_addr w0"
  shows "anchored w0 (capture_params ps s) \<and>
         (\<forall>q. q \<in> set ps \<or> initial_param (fst s) q \<noteq> None \<longrightarrow>
              initial_param (fst (capture_params ps s)) q \<noteq> None)"
  using assms
proof (induction ps arbitrary: s)
  case Nil
  then show ?case by simp
next
  case (Cons p ps)
  have p: "p < next_addr w0" using Cons.prems(2) by simp
  note C = capture_anchored[OF Cons.prems(1) p]
  have "anchored w0 (capture_params ps (capture p s)) \<and>
         (\<forall>q. q \<in> set ps \<or> initial_param (fst (capture p s)) q \<noteq> None \<longrightarrow>
              initial_param (fst (capture_params ps (capture p s))) q \<noteq> None)"
    by (rule Cons.IH[OF C(1)]) (use Cons.prems(2) in simp)
  then show ?case using C(2) C(3) by auto
qed

lemma capture_groups_anchored:
  assumes "anchored w0 s" and "\<forall>g \<in> set gs. \<forall>p \<in> set (params g). p < next_addr w0"
  shows "anchored w0 (capture_groups gs s) \<and>
         (\<forall>q. (\<exists>g \<in> set gs. (localization g \<noteq> 0 \<or> ne_zero (bounding_box_size g)) \<and> q \<in> set (params g))
               \<or> initial_param (fst s) q \<noteq> None \<longrightarrow>
              initial_param (fst (capture_groups gs s)) q \<noteq> None)"
  using assms
proof (induction gs arbitrary: s)
  case Nil
  then show ?case by simp
next
  case (Cons g gs)
  have rest: "\<forall>g \<in> set gs. \<forall>p \<in> set (params g). p < next_addr w0" using Cons.prems(2) by simp
  show ?case
  proof (cases "localization g \<noteq> 0 \<or> ne_zero (bounding_box_size g)")
    case True
    have "\<forall>p \<in> set (params g). p < next_addr w0" using Cons.prems(2) by simp
    note P = capture_params_anchored[OF Cons.prems(1) this]
    from Cons.IH[OF conjunct1[OF P] rest] P True show ?thesis by auto
  next
    case False
    from Cons.IH[OF Cons.prems(1) rest] False show ?thesis by auto
  qed
qed

lemma anchored_start:
  "anchored w (\<lparr>param_groups = gs, state = Map.empty, save_noise = sv, noise = None\<rparr>, w)"
  by (simp add: anchored_def initial_param_def)

lemma steps_frame:
  assumes "steps grs (opt, w) = Inr (opt', w')"
  shows "param_groups opt' = param_groups opt \<and> initial_param opt' = initial_param opt \<and>
         next_addr w' = next_addr w \<and>
         (\<forall>x. x \<notin> set (all_params opt) \<longrightarrow> store w' x = store w x)"
  using assms
proof (induction grs arbitrary: opt w)
  case Nil
  then show ?case by simp
next
  case (Cons gr grs)
  from Cons.prems obtain opt1 w1 where
    s: "step (opt, w\<lparr>grad := gr\<rparr>) = Inr (opt1, w1)" and r: "steps grs (opt1, w1) = Inr (opt', w')"
    by (auto split: sum.splits)
  note S = step_frame[OF s]
  have ap: "all_params opt1 = all_params opt" by (simp add: all_params_def S(5))
  have st: "x \<notin> set (all_params opt) \<Longrightarrow> store w1 x = store w x" for x
    using S(8)[of x] by simp
  from Cons.IH[OF r] S(5) S(7) S(4) st show ?case by (simp add: ap)
qed

text \<open>
  C7: for a parameter of a group with \<open>localization \<noteq> 0\<close> or a box that line 89 takes
  as set (a non-zero number, and also \<^verbatim>\<open>None\<close>), the constructor stores an anchor. Given
  that the parameters exist when the optimizer is built, the anchor is a cell of its own,
  no parameter's, that holds the value the parameter had at construction, and after any
  number of steps, whatever the gradients, the same anchor still holds that value.
\<close>

theorem anchor_is_frozen_copy:
  assumes "snd (SGLD_init ps args sv w0) = Inr (opt, w)"
    and "\<forall>q \<in> set (all_params opt). q < next_addr w0"
    and "g \<in> set (param_groups opt)" and "p \<in> set (params g)"
    and "localization g \<noteq> 0 \<or> ne_zero (bounding_box_size g)"
    and "steps grs (opt, w) = Inr (opt', w')"
  shows "\<exists>a. initial_param opt p = Some a \<and> initial_param opt' p = Some a \<and>
             a \<notin> set (all_params opt) \<and> store w a = store w0 p \<and> store w' a = store w0 p"
proof -
  from SGLD_init_Inr[OF assms(1)] obtain gs where
    c: "capture_groups gs (\<lparr>param_groups = gs, state = Map.empty, save_noise = sv, noise = None\<rparr>, w0)
             = (opt, w)" by blast
  from capture_groups_fields[OF c] have gs: "param_groups opt = gs" by simp
  have al: "\<forall>g \<in> set gs. \<forall>p \<in> set (params g). p < next_addr w0"
    using assms(2) by (auto simp: all_params_def gs)
  from capture_groups_anchored[OF anchored_start[of w0 gs sv] al] c
  have A: "anchored w0 (opt, w)"
    and H: "\<And>q. (\<exists>g \<in> set gs. (localization g \<noteq> 0 \<or> ne_zero (bounding_box_size g)) \<and> q \<in> set (params g))
               \<Longrightarrow> initial_param opt q \<noteq> None"
    by auto
  have "initial_param opt p \<noteq> None" using H[of p] assms(3,4,5) gs by blast
  then obtain a where a: "initial_param opt p = Some a" by blast
  from A a have a1: "next_addr w0 \<le> a" and a2: "store w a = store w0 p"
    by (auto simp: anchored_def)
  have a3: "a \<notin> set (all_params opt)" using a1 assms(2) by auto
  note F = steps_frame[OF assms(6)]
  from F a3 have "store w' a = store w a" by blast
  then show ?thesis using a a2 a3 F by auto
qed


theorem anchor_is_frozen_copy_witness:
  "snd (SGLD_init (Tensors [0]) (default_args\<lparr>localization := 1 / 2\<rparr>) False
         (world1 Float32 10 None 3))
     = Inr (built (default_args\<lparr>localization := 1 / 2\<rparr>) False (world1 Float32 10 None 3)) \<and>
   steps [grad1 2, grad1 (- 1)]
         (built (default_args\<lparr>localization := 1 / 2\<rparr>) False (world1 Float32 10 None 3))
     = Inr (ran [grad1 2, grad1 (- 1)]
         (built (default_args\<lparr>localization := 1 / 2\<rparr>) False (world1 Float32 10 None 3))) \<and>
   initial_param (fst (ran [grad1 2, grad1 (- 1)]
         (built (default_args\<lparr>localization := 1 / 2\<rparr>) False (world1 Float32 10 None 3)))) 0
     = Some 1 \<and>
   store (snd (ran [grad1 2, grad1 (- 1)]
         (built (default_args\<lparr>localization := 1 / 2\<rparr>) False (world1 Float32 10 None 3)))) 1
     = scalar Float32 10"
proof -
  let ?c = "default_args\<lparr>localization := 1 / 2\<rparr>"
  let ?w = "world1 Float32 10 None 3"
  let ?s = "built ?c False ?w"
  let ?t = "ran [grad1 2, grad1 (- 1)] ?s"
  have 1: "snd (SGLD_init (Tensors [0]) ?c False ?w) = Inr (fst ?s, snd ?s)"
    by (simp add: ex_defs)
  have 2: "\<forall>q \<in> set (all_params (fst ?s)). q < next_addr ?w"
    by (simp add: ex_defs all_params_def)
  have 3: "fill_defaults ?c (plain_group [0]) \<in> set (param_groups (fst ?s))"
    by (simp add: ex_defs)
  have 4: "0 \<in> set (params (fill_defaults ?c (plain_group [0])))"
    by (simp add: ex_defs)
  have 5: "localization (fill_defaults ?c (plain_group [0])) \<noteq> 0 \<or>
           ne_zero (bounding_box_size (fill_defaults ?c (plain_group [0])))"
    by (simp add: ex_defs)
  have 6: "steps [grad1 2, grad1 (- 1)] (fst ?s, snd ?s) = Inr (fst ?t, snd ?t)"
    by (simp add: ex_defs)
  have 7: "store ?w 0 = scalar Float32 10" by (simp add: ex_defs)
  have 8: "initial_param (fst ?s) 0 = Some 1" by (simp add: ex_defs)
  from anchor_is_frozen_copy[OF 1 2 3 4 5 6] 1 6 7 8 show ?thesis by auto
qed

section \<open>The value after a step\<close>

lemma initial_param_noise [simp]: "initial_param (opt\<lparr>noise := n\<rparr>) = initial_param opt"
  by (simp add: initial_param_def fun_eq_iff)

lemma sched_set:
  "x \<in> set (sched gs w) \<longleftrightarrow> fst x \<in> set gs \<and> snd x \<in> set (params (fst x)) \<and> grad w (snd x) \<noteq> None"
  by (cases x) (auto simp: sched_def)

lemma sched_params: "snd ` set (sched (param_groups opt) w) \<subseteq> set (all_params opt)"
  by (auto simp: sched_set all_params_def)

lemma sched_distinct: "distinct (all_params opt) \<Longrightarrow> distinct (map snd (sched (param_groups opt) w))"
  by (simp only: sched_snd all_params_def[symmetric] distinct_filter)

lemma step_value:
  assumes s: "step (opt, w) = Inr (opt', w')" and wf: "well_formed opt w"
    and k: "k < length (sched (param_groups opt) w)" "sched (param_groups opt) w ! k = (g, p)"
    and gr: "grad w p = Some gr"
    and anc: "\<forall>a. initial_param opt p = Some a \<longrightarrow> anc = elems (store w a)"
  shows "length (elems (store w' p)) = length (elems (store w p)) \<and>
         (\<forall>i < length (elems (store w p)).
            elems (store w' p) ! i =
              spec_clamp (bounding_box_size g) (anc ! i)
                (elems (store w p) ! i
                 - 0.5 * lr g * (elems gr ! i * temperature g + weight_decay g * elems (store w p) ! i +
                                 localization g * (elems (store w p) ! i - anc ! i))
                 + sqrt (lr g) * elems (draws (sched (param_groups opt) w) w ! k) ! i))"
proof -
  let ?r = "sched (param_groups opt) w"
  from s have r: "run_sched ?r (opt\<lparr>noise := Some []\<rparr>, w) = Inr (opt', w')"
    by (simp add: step_sched)
  have d: "distinct (map snd ?r)" using wf by (simp add: well_formed_def sched_distinct)
  have sub: "snd ` set ?r \<subseteq> set (all_params opt)" by (rule sched_params)
  have g: "\<forall>q \<in> snd ` set ?r. \<exists>gq. grad w q = Some gq \<and>
            length (elems gq) = length (elems (store w q)) \<and> numel (shape gq) = length (elems gq)"
  proof
    fix q assume q: "q \<in> snd ` set ?r"
    then have "grad w q \<noteq> None" by (auto simp: sched_set)
    then obtain gq where "grad w q = Some gq" by blast
    moreover have "q \<in> set (all_params opt)" using q sub by blast
    ultimately show "\<exists>gq. grad w q = Some gq \<and>
            length (elems gq) = length (elems (store w q)) \<and> numel (shape gq) = length (elems gq)"
      using wf by (auto simp: well_formed_def)
  qed
  have a: "\<forall>q \<in> snd ` set ?r. \<forall>a. initial_param (opt\<lparr>noise := Some []\<rparr>) q = Some a \<longrightarrow>
            a \<notin> snd ` set ?r \<and> length (elems (store w a)) = length (elems (store w q))"
  proof (intro ballI allI impI)
    fix q a assume q: "q \<in> snd ` set ?r" and "initial_param (opt\<lparr>noise := Some []\<rparr>) q = Some a"
    then have ia: "initial_param opt q = Some a" by simp
    have "q \<in> set (all_params opt)" using q sub by blast
    with wf ia have "a \<notin> set (all_params opt)"
      "length (elems (store w a)) = length (elems (store w q))"
      by (auto simp: well_formed_def)
    then show "a \<notin> snd ` set ?r \<and> length (elems (store w a)) = length (elems (store w q))"
      using sub by blast
  qed
  have anc': "\<forall>a. initial_param (opt\<lparr>noise := Some []\<rparr>) p = Some a \<longrightarrow> anc = elems (store w a)"
    using anc by simp
  show ?thesis by (rule run_sched_value[OF r d g a k gr anc'])
qed

lemma run_sched_ok:
  assumes "run_sched r (opt, w) = Inr (opt', w')" and "(g, p) \<in> set r" and "grad w p \<noteq> None"
  shows "0 \<le> lr g \<and> 0 \<le> noise_level g"
  using assms
proof (induction r arbitrary: opt w)
  case Nil
  then show ?case by simp
next
  case (Cons x r)
  obtain g0 q where x: "x = (g0, q)" by (cases x)
  show ?case
  proof (cases "grad w q")
    case None
    with Cons.prems have "run_sched r (opt, w) = Inr (opt', w')" "(g, p) \<in> set r"
      by (auto simp: x)
    from Cons.IH[OF this Cons.prems(3)] show ?thesis .
  next
    case (Some gq)
    with Cons.prems(1) obtain opt1 w1 where
      u: "update_param g0 q gq (opt, w) = Inr (opt1, w1)"
      and r: "run_sched r (opt1, w1) = Inr (opt', w')"
      by (auto simp: x split: sum.splits)
    have ok: "0 \<le> lr g0 \<and> 0 \<le> noise_level g0"
      using u by (auto simp: update_param_def Let_def torch_normal_def pow_half_def
          split: sum.splits option.splits if_splits prod.splits)
    show ?thesis
    proof (cases "(g, p) = (g0, q)")
      case True
      then show ?thesis using ok by simp
    next
      case False
      then have m: "(g, p) \<in> set r" using Cons.prems(2) by (auto simp: x)
      have "grad w1 p \<noteq> None" using Cons.prems(3) update_param_Inr(1)[OF u] by simp
      from Cons.IH[OF r m this] show ?thesis .
    qed
  qed
qed

lemma draws_nth:
  assumes "k < length r" and "r ! k = (g, p)" and "grad w p = Some gr"
    and "\<forall>x \<in> set r. grad w (snd x) \<noteq> None"
  shows "\<exists>c. draws r w ! k = gaussian 0 (noise_level g) (shape gr) (device gr) (w\<lparr>cursor := c\<rparr>)"
  using assms
proof (induction r arbitrary: w k)
  case Nil
  then show ?case by simp
next
  case (Cons x r)
  obtain g0 q where x: "x = (g0, q)" by (cases x)
  from Cons.prems(4) obtain gq where gq: "grad w q = Some gq" by (auto simp: x)
  show ?case
  proof (cases k)
    case 0
    then have "g0 = g" "q = p" using Cons.prems(2) by (simp_all add: x)
    then have "draws (x # r) w ! k = gaussian 0 (noise_level g) (shape gr) (device gr) (w\<lparr>cursor := cursor w\<rparr>)"
      using Cons.prems(3) by (simp add: x 0)
    then show ?thesis by blast
  next
    case (Suc j)
    let ?w = "w\<lparr>cursor := cursor w + numel (shape gq)\<rparr>"
    have "\<exists>c. draws r ?w ! j = gaussian 0 (noise_level g) (shape gr) (device gr) (?w\<lparr>cursor := c\<rparr>)"
      by (rule Cons.IH) (use Cons.prems Suc in auto)
    then show ?thesis using gq by (simp add: x Suc)
  qed
qed

lemma group1_fields:
  "lr (group1 c) = lr c" "noise_level (group1 c) = noise_level c"
  "weight_decay (group1 c) = weight_decay c" "localization (group1 c) = localization c"
  "temperature (group1 c) = temperature c" "bounding_box_size (group1 c) = bounding_box_size c"
  "params (group1 c) = [0]"
  by (simp_all add: group1_def fill_defaults_def plain_group_def or_default_def)

lemma default_args_fields:
  "lr default_args = 0.01" "noise_level default_args = 1" "weight_decay default_args = 0"
  "localization default_args = 0" "temperature default_args = 1"
  "bounding_box_size default_args = None"
  by (simp_all add: default_args_def)

section \<open>Well-formed states\<close>

lemma construction_well_formed:
  assumes "snd (SGLD_init ps args sv w0) = Inr (opt, w)"
    and "distinct (all_params opt)" and "\<forall>q \<in> set (all_params opt). q < next_addr w0"
    and "\<forall>q \<in> set (all_params opt). \<forall>gr. grad w0 q = Some gr \<longrightarrow>
           length (elems gr) = length (elems (store w0 q)) \<and> numel (shape gr) = length (elems gr)"
  shows "well_formed opt w"
proof -
  from SGLD_init_Inr[OF assms(1)] obtain gs where
    c: "capture_groups gs (\<lparr>param_groups = gs, state = Map.empty, save_noise = sv, noise = None\<rparr>, w0)
             = (opt, w)" by blast
  from capture_groups_fields[OF c] have gs: "param_groups opt = gs" and gr: "grad w = grad w0"
    by simp_all
  have al: "\<forall>g \<in> set gs. \<forall>p \<in> set (params g). p < next_addr w0"
    using assms(3) by (auto simp: all_params_def gs)
  from capture_groups_anchored[OF anchored_start[of w0 gs sv] al] c
  have A: "anchored w0 (opt, w)" by simp
  then have old: "\<And>x. x < next_addr w0 \<Longrightarrow> store w x = store w0 x"
    and anc: "\<And>q a. initial_param opt q = Some a \<Longrightarrow> next_addr w0 \<le> a \<and> store w a = store w0 q"
    by (auto simp: anchored_def)
  show ?thesis
    unfolding well_formed_def
  proof (intro conjI ballI allI impI)
    show "distinct (all_params opt)" by (rule assms(2))
  next
    fix p gr' assume p: "p \<in> set (all_params opt)" and g: "grad w p = Some gr'"
    then have "p < next_addr w0" using assms(3) by blast
    then have "store w p = store w0 p" by (rule old)
    then show "length (elems gr') = length (elems (store w p))" "numel (shape gr') = length (elems gr')"
      using assms(4) p g by (auto simp: gr)
  next
    fix p a assume p: "p \<in> set (all_params opt)" and a: "initial_param opt p = Some a"
    from anc[OF a] have 1: "next_addr w0 \<le> a" and 2: "store w a = store w0 p" by simp_all
    show "a \<notin> set (all_params opt)" using 1 assms(3) by auto
    have "p < next_addr w0" using assms(3) p by blast
    then have "store w p = store w0 p" by (rule old)
    then show "length (elems (store w a)) = length (elems (store w p))" using 2 by simp
  qed
qed

lemma step_well_formed:
  assumes "well_formed opt w" and "step (opt, w) = Inr (opt', w')"
  shows "well_formed opt' w'"
proof -
  note F = step_frame[OF assms(2)]
  have ap: "all_params opt' = all_params opt" by (simp add: all_params_def F(5))
  have len: "length (elems (store w' p)) = length (elems (store w p))"
    if p: "p \<in> set (all_params opt)" for p
  proof (cases "grad w p")
    case None
    then show ?thesis using F(8)[of p] by simp
  next
    case (Some gr)
    let ?r = "sched (param_groups opt) w"
    from p obtain g where "g \<in> set (param_groups opt)" "p \<in> set (params g)"
      by (auto simp: all_params_def)
    then have "(g, p) \<in> set ?r" using Some by (simp add: sched_set)
    then obtain k where k: "k < length ?r" "?r ! k = (g, p)" by (auto simp: in_set_conv_nth)
    define anc where "anc = (case initial_param opt p of None \<Rightarrow> [] | Some a \<Rightarrow> elems (store w a))"
    have "\<forall>a. initial_param opt p = Some a \<longrightarrow> anc = elems (store w a)" by (simp add: anc_def)
    from step_value[OF assms(2,1) k Some this] show ?thesis by blast
  qed
  show ?thesis
    unfolding well_formed_def ap F(1) F(7)
  proof (intro conjI ballI allI impI)
    show "distinct (all_params opt)" using assms(1) by (simp add: well_formed_def)
  next
    fix p gr assume p: "p \<in> set (all_params opt)" and g: "grad w p = Some gr"
    then show "length (elems gr) = length (elems (store w' p))" "numel (shape gr) = length (elems gr)"
      using assms(1) len[OF p] by (auto simp: well_formed_def)
  next
    fix p a assume p: "p \<in> set (all_params opt)" and a: "initial_param opt p = Some a"
    with assms(1) have 1: "a \<notin> set (all_params opt)"
      and 2: "length (elems (store w a)) = length (elems (store w p))"
      by (auto simp: well_formed_def)
    show "a \<notin> set (all_params opt)" by (rule 1)
    have "store w' a = store w a" using F(8)[of a] 1 by simp
    then show "length (elems (store w' a)) = length (elems (store w' p))" using 2 len[OF p] by simp
  qed
qed

section \<open>The update rule\<close>

text \<open>
  C3: for the \<open>k\<close>-th processed parameter \<open>p\<close> of a returning step, every element of
  the new value is the clamp (the identity unless the group has a non-zero box) of
  \<open>value - 0.5 * lr * dw + lr\<^sup>0\<^sup>.\<^sup>5 * noise\<close>, where
  \<open>dw = grad * temperature + weight_decay * value + localization * (value - anchor)\<close> is
  combined before any scaling and \<open>noise\<close> is the \<open>k\<close>-th draw of the step: the drift is
  scaled by \<open>lr / 2\<close>, the noise by the square root of \<open>lr\<close>, which is real since a
  returning step has \<open>lr \<ge> 0\<close>. Here \<open>anc\<close> stands for the elements of the anchor if one
  is stored.
\<close>

theorem step_langevin_update:
  assumes "step (opt, w) = Inr (opt', w')" and "well_formed opt w"
    and "k < length (sched (param_groups opt) w)" and "sched (param_groups opt) w ! k = (g, p)"
    and "grad w p = Some gr"
    and "\<forall>a. initial_param opt p = Some a \<longrightarrow> anc = elems (store w a)"
    and "i < length (elems (store w p))"
  shows "elems (store w' p) ! i =
           spec_clamp (bounding_box_size g) (anc ! i)
             (elems (store w p) ! i
              - 0.5 * lr g * (elems gr ! i * temperature g + weight_decay g * elems (store w p) ! i +
                              localization g * (elems (store w p) ! i - anc ! i))
              + sqrt (lr g) * elems (draws (sched (param_groups opt) w) w ! k) ! i) \<and>
         0 \<le> lr g"
proof -
  from assms(1) have r: "run_sched (sched (param_groups opt) w) (opt\<lparr>noise := Some []\<rparr>, w) = Inr (opt', w')"
    by (simp add: step_sched)
  have "(g, p) \<in> set (sched (param_groups opt) w)" using assms(3,4) nth_mem by fastforce
  from run_sched_ok[OF r this] assms(5) have "0 \<le> lr g" by simp
  then show ?thesis using step_value[OF assms(1-6)] assms(7) by blast
qed

theorem step_langevin_update_witness:
  "step (built default_args True (world1 Float32 10 (Some 2) 3))
     = Inr (after (built default_args True (world1 Float32 10 (Some 2) 3))) \<and>
   well_formed (fst (built default_args True (world1 Float32 10 (Some 2) 3)))
               (snd (built default_args True (world1 Float32 10 (Some 2) 3))) \<and>
   elems (store (snd (after (built default_args True (world1 Float32 10 (Some 2) 3)))) 0) ! 0
     = 10 - 0.5 * 0.01 * (2 * 1 + 0 * 10 + 0 * (10 - 10)) + sqrt 0.01 * 3"
proof -
  let ?s = "built default_args True (world1 Float32 10 (Some 2) 3)"
  have 1: "step (fst ?s, snd ?s) = Inr (fst (after ?s), snd (after ?s))"
    by (simp add: ex_defs)
  have 2: "well_formed (fst ?s) (snd ?s)"
    by (simp add: ex_defs well_formed_def all_params_def)
  have 3: "0 < length (sched (param_groups (fst ?s)) (snd ?s))"
    by (simp add: ex_defs sched_def)
  have 4: "sched (param_groups (fst ?s)) (snd ?s) ! 0 = (group1 default_args, 0)"
    by (simp add: ex_defs sched_def)
  have 5: "grad (snd ?s) 0 = Some (scalar Float32 2)" by (simp add: ex_defs)
  have 6: "\<forall>a. initial_param (fst ?s) 0 = Some a \<longrightarrow> [10] = elems (store (snd ?s) a)"
    by (simp add: ex_defs)
  have 7: "0 < length (elems (store (snd ?s) 0))" by (simp add: ex_defs)
  have 8: "draws (sched (param_groups (fst ?s)) (snd ?s)) (snd ?s) = [scalar Float32 3]"
    by (simp add: ex_defs sched_def)
  have 9: "store (snd ?s) 0 = scalar Float32 10" by (simp add: ex_defs)
  note T = step_langevin_update[OF 1 2 3 4 5 6 7, unfolded 8 9]
  from T 1 2
  show ?thesis by (simp add: scalar_def spec_clamp_def group1_fields default_args_fields)
qed

text \<open>
  C2, amended: if the draw of the \<open>k\<close>-th processed parameter is zero, every element of
  its new value is the clamp into the box around the anchor of
  \<open>value - 0.5 * lr * (grad * temperature + weight_decay * value + localization * (value -
  anchor))\<close>; the clamp is the identity when the group has no box or a box of size zero, and
  then the new value is exactly that number. With \<open>lr = 0.04\<close>, no weight decay,
  \<open>localization = 0.5\<close>, value 12, anchor 10 and gradient 0 it is 11.98.
\<close>

theorem step_without_noise:
  assumes "step (opt, w) = Inr (opt', w')" and "well_formed opt w"
    and "k < length (sched (param_groups opt) w)" and "sched (param_groups opt) w ! k = (g, p)"
    and "grad w p = Some gr"
    and "\<forall>a. initial_param opt p = Some a \<longrightarrow> anc = elems (store w a)"
    and "\<forall>x \<in> set (elems (draws (sched (param_groups opt) w) w ! k)). x = 0"
    and "i < length (elems (store w p))"
  shows "elems (store w' p) ! i =
           spec_clamp (bounding_box_size g) (anc ! i)
             (elems (store w p) ! i
              - 0.5 * lr g * (elems gr ! i * temperature g + weight_decay g * elems (store w p) ! i +
                              localization g * (elems (store w p) ! i - anc ! i)))"
proof -
  let ?r = "sched (param_groups opt) w"
  have h: "\<forall>x \<in> set ?r. grad w (snd x) \<noteq> None" by (simp add: sched_has_grad)
  from draws_nth[OF assms(3,4,5) h] obtain c where
    c: "draws ?r w ! k = gaussian 0 (noise_level g) (shape gr) (device gr) (w\<lparr>cursor := c\<rparr>)" by blast
  have "p \<in> snd ` set ?r" using assms(3,4) by (metis nth_mem snd_conv image_eqI)
  then have "p \<in> set (all_params opt)" using sched_params by blast
  with assms(2,5) have "numel (shape gr) = length (elems (store w p))"
    by (auto simp: well_formed_def)
  then have "i < length (elems (draws ?r w ! k))" using assms(8) by (simp add: c gaussian_elems)
  then have "elems (draws ?r w ! k) ! i = 0" using assms(7) nth_mem by blast
  then show ?thesis using step_value[OF assms(1-6)] assms(8) by simp
qed

theorem step_without_noise_witness:
  "step (drifted 12 (built (default_args\<lparr>lr := 0.04, localization := 0.5\<rparr>) False
                       (world1 Float32 10 (Some 0) 0)))
     = Inr (after (drifted 12 (built (default_args\<lparr>lr := 0.04, localization := 0.5\<rparr>) False
                       (world1 Float32 10 (Some 0) 0)))) \<and>
   elems (store (snd (built (default_args\<lparr>lr := 0.04, localization := 0.5\<rparr>) False
                       (world1 Float32 10 (Some 0) 0))) 1) = [10] \<and>
   elems (store (snd (after (drifted 12 (built (default_args\<lparr>lr := 0.04, localization := 0.5\<rparr>)
                       False (world1 Float32 10 (Some 0) 0))))) 0) ! 0 = 11.98"
proof -
  let ?c = "default_args\<lparr>lr := 0.04, localization := 0.5\<rparr>"
  let ?s = "drifted 12 (built ?c False (world1 Float32 10 (Some 0) 0))"
  have 1: "step (fst ?s, snd ?s) = Inr (fst (after ?s), snd (after ?s))"
    by (simp add: ex_defs)
  have 2: "well_formed (fst ?s) (snd ?s)"
    by (simp add: ex_defs well_formed_def all_params_def)
  have 3: "0 < length (sched (param_groups (fst ?s)) (snd ?s))"
    by (simp add: ex_defs sched_def)
  have 4: "sched (param_groups (fst ?s)) (snd ?s) ! 0 = (group1 ?c, 0)"
    by (simp add: ex_defs sched_def)
  have 5: "grad (snd ?s) 0 = Some (scalar Float32 0)" by (simp add: ex_defs)
  have 6: "\<forall>a. initial_param (fst ?s) 0 = Some a \<longrightarrow> [10] = elems (store (snd ?s) a)"
    by (simp add: ex_defs)
  have 7: "\<forall>x \<in> set (elems (draws (sched (param_groups (fst ?s)) (snd ?s)) (snd ?s) ! 0)). x = 0"
    by (simp add: ex_defs sched_def)
  have 8: "0 < length (elems (store (snd ?s) 0))" by (simp add: ex_defs)
  have 9: "store (snd ?s) 0 = scalar Float32 12" by (simp add: ex_defs)
  have 10: "elems (store (snd (built ?c False (world1 Float32 10 (Some 0) 0))) 1) = [10]"
    by (simp add: ex_defs)
  note T = step_without_noise[OF 1 2 3 4 5 6 7 8, unfolded 9]
  from T 1 10
  show ?thesis by (simp add: scalar_def spec_clamp_def group1_fields default_args_fields)
qed

text \<open>
  C2 as stated fails where the box is active: with \<open>lr = 1\<close>, a box of size 1 around the
  anchor 5, value 5, gradient -10 and a zero draw the formula gives 10, and the step
  leaves 6.
\<close>

theorem clamp_overrides_formula:
  "step (built (default_args\<lparr>lr := 1, bounding_box_size := Some 1\<rparr>) False
               (world1 Float32 5 (Some (- 10)) 0))
     = Inr (after (built (default_args\<lparr>lr := 1, bounding_box_size := Some 1\<rparr>) False
               (world1 Float32 5 (Some (- 10)) 0))) \<and>
   grad (snd (built (default_args\<lparr>lr := 1, bounding_box_size := Some 1\<rparr>) False
               (world1 Float32 5 (Some (- 10)) 0))) 0 = Some (scalar Float32 (- 10)) \<and>
   draws (sched (param_groups (fst (built (default_args\<lparr>lr := 1, bounding_box_size := Some 1\<rparr>)
               False (world1 Float32 5 (Some (- 10)) 0))))
            (snd (built (default_args\<lparr>lr := 1, bounding_box_size := Some 1\<rparr>) False
               (world1 Float32 5 (Some (- 10)) 0))))
         (snd (built (default_args\<lparr>lr := 1, bounding_box_size := Some 1\<rparr>) False
               (world1 Float32 5 (Some (- 10)) 0))) = [scalar Float32 0] \<and>
   elems (store (snd (built (default_args\<lparr>lr := 1, bounding_box_size := Some 1\<rparr>) False
               (world1 Float32 5 (Some (- 10)) 0))) 0) = [5] \<and>
   elems (store (snd (built (default_args\<lparr>lr := 1, bounding_box_size := Some 1\<rparr>) False
               (world1 Float32 5 (Some (- 10)) 0))) 1) = [5] \<and>
   elems (store (snd (after (built (default_args\<lparr>lr := 1, bounding_box_size := Some 1\<rparr>) False
               (world1 Float32 5 (Some (- 10)) 0)))) 0) = [6] \<and>
   (6 :: real) \<noteq> 5 - 0.5 * 1 * (- 10 * 1 + 0 * 5 + 0 * (5 - 5))"
  by (simp add: ex_defs sched_def)

section \<open>The bounding box\<close>

lemma spec_clamp_in_box: "0 < b \<Longrightarrow> c - b \<le> spec_clamp (Some b) c x \<and> spec_clamp (Some b) c x \<le> c + b"
  by (simp add: spec_clamp_def min_def max_def)

text \<open>
  C4, amended: after a returning step, a parameter of a group with a box of size \<open>b > 0\<close>
  that had a gradient has every element within \<open>b\<close> of its anchor's, however far the
  update went; a parameter without gradient is skipped, so it is in the box if it was
  before the step. The anchor is the one stored before the step.
\<close>

theorem step_keeps_box:
  assumes "step (opt, w) = Inr (opt', w')" and "well_formed opt w"
    and "g \<in> set (param_groups opt)" and "p \<in> set (params g)"
    and "bounding_box_size g = Some b" and "0 < b"
    and "initial_param opt p = Some a"
    and "grad w p \<noteq> None \<or> in_box b (store w a) (store w p)"
  shows "in_box b (store w' a) (store w' p) \<and> initial_param opt' p = Some a"
proof -
  have pa: "p \<in> set (all_params opt)" using assms(3,4) by (auto simp: all_params_def)
  with assms(2,7) have an: "a \<notin> set (all_params opt)"
    and la: "length (elems (store w a)) = length (elems (store w p))"
    by (auto simp: well_formed_def)
  note F = step_frame[OF assms(1)]
  have sa: "store w' a = store w a" using F(8)[of a] an by simp
  have ip: "initial_param opt' p = Some a" using F(7) assms(7) by simp
  have "in_box b (store w a) (store w' p)"
  proof (cases "grad w p")
    case None
    then have "store w' p = store w p" using F(8)[of p] by simp
    then show ?thesis using assms(8) None by simp
  next
    case (Some gr)
    let ?r = "sched (param_groups opt) w"
    have "(g, p) \<in> set ?r" using assms(3,4) Some by (simp add: sched_set)
    then obtain k where k: "k < length ?r" "?r ! k = (g, p)" by (auto simp: in_set_conv_nth)
    have anc: "\<forall>a'. initial_param opt p = Some a' \<longrightarrow> elems (store w a) = elems (store w a')"
      using assms(7) by simp
    note V = step_value[OF assms(1,2) k Some anc]
    show ?thesis
      unfolding in_box_def list_all2_conv_all_nth
      using V la spec_clamp_in_box[OF assms(6)] by (simp add: assms(5))
  qed
  then show ?thesis using sa ip by simp
qed

theorem step_keeps_box_witness:
  "step (built (default_args\<lparr>lr := 1, bounding_box_size := Some 1\<rparr>) False
               (world1 Float32 5 (Some (- 10)) 0))
     = Inr (after (built (default_args\<lparr>lr := 1, bounding_box_size := Some 1\<rparr>) False
               (world1 Float32 5 (Some (- 10)) 0))) \<and>
   in_box 1 (store (snd (after (built (default_args\<lparr>lr := 1, bounding_box_size := Some 1\<rparr>) False
               (world1 Float32 5 (Some (- 10)) 0)))) 1)
            (store (snd (after (built (default_args\<lparr>lr := 1, bounding_box_size := Some 1\<rparr>) False
               (world1 Float32 5 (Some (- 10)) 0)))) 0) \<and>
   elems (store (snd (after (built (default_args\<lparr>lr := 1, bounding_box_size := Some 1\<rparr>) False
               (world1 Float32 5 (Some (- 10)) 0)))) 0) = [6]"
proof -
  let ?c = "default_args\<lparr>lr := 1, bounding_box_size := Some 1\<rparr>"
  let ?s = "built ?c False (world1 Float32 5 (Some (- 10)) 0)"
  have 1: "step (fst ?s, snd ?s) = Inr (fst (after ?s), snd (after ?s))"
    by (simp add: ex_defs)
  have 2: "well_formed (fst ?s) (snd ?s)"
    by (simp add: ex_defs well_formed_def all_params_def)
  have 3: "group1 ?c \<in> set (param_groups (fst ?s))" by (simp add: ex_defs)
  have 4: "0 \<in> set (params (group1 ?c))" by (simp add: group1_fields)
  have 5: "bounding_box_size (group1 ?c) = Some 1" by (simp add: group1_fields)
  have 6: "(0::real) < 1" by simp
  have 7: "initial_param (fst ?s) 0 = Some 1" by (simp add: ex_defs)
  have 8: "grad (snd ?s) 0 \<noteq> None \<or> in_box 1 (store (snd ?s) 1) (store (snd ?s) 0)"
    by (simp add: ex_defs)
  have 9: "elems (store (snd (after ?s)) 0) = [6]" by (simp add: ex_defs)
  from step_keeps_box[OF 1 2 3 4 5 6 7 8] 1 9 show ?thesis by simp
qed

text \<open>
  C4 as stated fails for a negative size, which is set and non-zero: the interval
  \<open>[anchor + 1, anchor - 1]\<close> of the size -1 is empty, and the clamp leaves the upper
  bound \<open>anchor - 1\<close>.
\<close>

theorem negative_box_is_empty:
  "step (built (default_args\<lparr>bounding_box_size := Some (- 1)\<rparr>) False (world1 Float32 5 (Some 0) 0))
     = Inr (after (built (default_args\<lparr>bounding_box_size := Some (- 1)\<rparr>) False
                     (world1 Float32 5 (Some 0) 0))) \<and>
   param_groups (fst (built (default_args\<lparr>bounding_box_size := Some (- 1)\<rparr>) False
                     (world1 Float32 5 (Some 0) 0)))
     = [group1 (default_args\<lparr>bounding_box_size := Some (- 1)\<rparr>)] \<and>
   bounding_box_size (group1 (default_args\<lparr>bounding_box_size := Some (- 1)\<rparr>)) = Some (- 1) \<and>
   params (group1 (default_args\<lparr>bounding_box_size := Some (- 1)\<rparr>)) = [0] \<and>
   initial_param (fst (after (built (default_args\<lparr>bounding_box_size := Some (- 1)\<rparr>) False
                     (world1 Float32 5 (Some 0) 0)))) 0 = Some 1 \<and>
   elems (store (snd (after (built (default_args\<lparr>bounding_box_size := Some (- 1)\<rparr>) False
                     (world1 Float32 5 (Some 0) 0)))) 1) = [5] \<and>
   elems (store (snd (after (built (default_args\<lparr>bounding_box_size := Some (- 1)\<rparr>) False
                     (world1 Float32 5 (Some 0) 0)))) 0) = [4] \<and>
   \<not> in_box (- 1)
        (store (snd (after (built (default_args\<lparr>bounding_box_size := Some (- 1)\<rparr>) False
                     (world1 Float32 5 (Some 0) 0)))) 1)
        (store (snd (after (built (default_args\<lparr>bounding_box_size := Some (- 1)\<rparr>) False
                     (world1 Float32 5 (Some 0) 0)))) 0)"
  by (simp add: ex_defs in_box_def)

text \<open>
  It also fails for a parameter without gradient that is outside the box before the step
  (here moved to 12 by the caller, with anchor 10 and size 1): the step skips it.
\<close>

lemma skipped_param_stays_outside_box:
  "step (drifted 12 (built (default_args\<lparr>bounding_box_size := Some 1\<rparr>) False
                       (world1 Float32 10 None 0)))
     = Inr (after (drifted 12 (built (default_args\<lparr>bounding_box_size := Some 1\<rparr>) False
                       (world1 Float32 10 None 0)))) \<and>
   \<not> in_box 1
        (store (snd (after (drifted 12 (built (default_args\<lparr>bounding_box_size := Some 1\<rparr>) False
                       (world1 Float32 10 None 0))))) 1)
        (store (snd (after (drifted 12 (built (default_args\<lparr>bounding_box_size := Some 1\<rparr>) False
                       (world1 Float32 10 None 0))))) 0)"
  by (simp add: ex_defs in_box_def)

section \<open>The Gaussian draw\<close>

text \<open>
  C9, amended: the draw for the \<open>k\<close>-th processed parameter has the shape and the device
  of \<open>dw\<close>, which are the gradient's, and the default element type of the process, not
  the parameter's. Its elements are \<open>0 + noise_level * z\<close> for consecutive standard normal
  variates \<open>z\<close> of the generator, with \<open>noise_level \<ge> 0\<close>, and it is the \<open>k\<close>-th
  entry of the log when diagnostics are on.
\<close>

theorem noise_draw_attributes:
  assumes "step (opt, w) = Inr (opt', w')"
    and "k < length (sched (param_groups opt) w)" and "sched (param_groups opt) w ! k = (g, p)"
    and "grad w p = Some gr"
  shows "shape (draws (sched (param_groups opt) w) w ! k) = shape gr \<and>
         device (draws (sched (param_groups opt) w) w ! k) = device gr \<and>
         dtype (draws (sched (param_groups opt) w) w ! k) = default_dtype w \<and>
         (\<exists>c. elems (draws (sched (param_groups opt) w) w ! k)
                = map (\<lambda>j. 0 + noise_level g * gen w (c + j)) [0..<numel (shape gr)]) \<and>
         0 \<le> noise_level g \<and>
         (save_noise opt \<longrightarrow>
            (\<exists>ns. noise opt' = Some ns \<and> ns ! k = draws (sched (param_groups opt) w) w ! k))"
proof -
  let ?r = "sched (param_groups opt) w"
  have h: "\<forall>x \<in> set ?r. grad w (snd x) \<noteq> None" by (simp add: sched_has_grad)
  from draws_nth[OF assms(2,3,4) h] obtain c where
    c: "draws ?r w ! k = gaussian 0 (noise_level g) (shape gr) (device gr) (w\<lparr>cursor := c\<rparr>)" by blast
  from assms(1) have r: "run_sched ?r (opt\<lparr>noise := Some []\<rparr>, w) = Inr (opt', w')"
    by (simp add: step_sched)
  have "(g, p) \<in> set ?r" using assms(2,3) nth_mem by fastforce
  from run_sched_ok[OF r this] assms(4) have n: "0 \<le> noise_level g" by simp
  have e: "elems (draws ?r w ! k) = map (\<lambda>j. 0 + noise_level g * gen w (c + j)) [0..<numel (shape gr)]"
    by (simp add: c gaussian_def)
  have l: "save_noise opt \<longrightarrow> (\<exists>ns. noise opt' = Some ns \<and> ns ! k = draws ?r w ! k)"
    using step_frame(9)[OF assms(1)] by simp
  have s: "shape (draws ?r w ! k) = shape gr" "device (draws ?r w ! k) = device gr"
    "dtype (draws ?r w ! k) = default_dtype w"
    by (simp_all add: c)
  have ex: "\<exists>c. elems (draws ?r w ! k)
                = map (\<lambda>j. 0 + noise_level g * gen w (c + j)) [0..<numel (shape gr)]"
    by (rule exI[of _ c]) (rule e)
  show ?thesis by (intro conjI) (rule s ex n l)+
qed

theorem noise_draw_attributes_witness:
  "step (built default_args True (world1 Float64 10 (Some 2) 3))
     = Inr (after (built default_args True (world1 Float64 10 (Some 2) 3))) \<and>
   noise (fst (after (built default_args True (world1 Float64 10 (Some 2) 3))))
     = Some [\<lparr>shape = [], device = Cpu, dtype = Float32, elems = [3]\<rparr>]"
proof -
  let ?s = "built default_args True (world1 Float64 10 (Some 2) 3)"
  have 1: "step (fst ?s, snd ?s) = Inr (fst (after ?s), snd (after ?s))"
    by (simp add: ex_defs)
  have 3: "0 < length (sched (param_groups (fst ?s)) (snd ?s))"
    by (simp add: ex_defs sched_def)
  have 4: "sched (param_groups (fst ?s)) (snd ?s) ! 0 = (group1 default_args, 0)"
    by (simp add: ex_defs sched_def)
  have 5: "grad (snd ?s) 0 = Some (scalar Float64 2)" by (simp add: ex_defs)
  have 6: "noise (fst (after ?s)) = Some [\<lparr>shape = [], device = Cpu, dtype = Float32, elems = [3]\<rparr>]"
    by (simp add: ex_defs)
  from noise_draw_attributes[OF 1 3 4 5] 1 6 show ?thesis by simp
qed

text \<open>
  C9 as stated fails for the element type: \<^verbatim>\<open>torch.normal\<close> is called without
  \<^verbatim>\<open>dtype\<close>, so for a parameter of type \<open>Float64\<close> in a process whose default is
  \<open>Float32\<close> the draw is \<open>Float32\<close>.
\<close>

theorem noise_dtype_is_default:
  "step (built default_args True (world1 Float64 10 (Some 2) 3))
     = Inr (after (built default_args True (world1 Float64 10 (Some 2) 3))) \<and>
   grad (snd (built default_args True (world1 Float64 10 (Some 2) 3))) 0 = Some (scalar Float64 2) \<and>
   dtype (store (snd (built default_args True (world1 Float64 10 (Some 2) 3))) 0) = Float64 \<and>
   noise (fst (after (built default_args True (world1 Float64 10 (Some 2) 3))))
     = Some [\<lparr>shape = [], device = Cpu, dtype = Float32, elems = [3]\<rparr>] \<and>
   dtype \<lparr>shape = [], device = Cpu, dtype = Float32, elems = [3]\<rparr>
     \<noteq> dtype (store (snd (built default_args True (world1 Float64 10 (Some 2) 3))) 0)"
  by (simp add: ex_defs)

end
